theory Spec2Isabelle
  imports Complex_Main "HOL-Library.Code_Target_Numeral"
begin

section \<open>The file I/O benchmark script \<^verbatim>\<open>bench_io_uring.ts\<close>\<close>

text \<open>
  The script is a sequence of top-level statements followed by five asynchronous
  functions (\<^verbatim>\<open>benchWrite\<close>, \<^verbatim>\<open>benchRead\<close>, \<^verbatim>\<open>benchStat\<close>,
  \<^verbatim>\<open>benchConcurrent\<close>, \<^verbatim>\<open>benchRealWorldScenario\<close>) and \<^verbatim>\<open>cleanup\<close>.
  Every function is embedded as a HOL function over an explicit world (the files,
  the clock, the operations issued so far, the console); a thrown exception is the
  \<open>Inl\<close> branch of the result.
\<close>

subsection \<open>Configuration constants (lines 15 to 26)\<close>

record bucket =
  bname :: string
  bsize :: nat

definition SIZES :: "bucket list" where
  "SIZES =
    [ \<lparr>bname = ''1KB'', bsize = 1024\<rparr>,
      \<lparr>bname = ''4KB'', bsize = 4 * 1024\<rparr>,
      \<lparr>bname = ''16KB'', bsize = 16 * 1024\<rparr>,
      \<lparr>bname = ''64KB'', bsize = 64 * 1024\<rparr>,
      \<lparr>bname = ''256KB'', bsize = 256 * 1024\<rparr>,
      \<lparr>bname = ''1MB'', bsize = 1024 * 1024\<rparr>,
      \<lparr>bname = ''4MB'', bsize = 4 * 1024 * 1024\<rparr> ]"

definition ITERATIONS :: nat where
  "ITERATIONS = 100"

definition CONCURRENT_OPS :: nat where
  "CONCURRENT_OPS = 10"

subsection \<open>Strings\<close>

text \<open>
  The strings the script builds itself (paths, names, the texts it serialises) consist
  of characters below U+0100 and are modelled as \<^typ>\<open>string\<close>, a character standing for
  the code point of its number. \<open>show_nat i\<close> is what a template literal \<^verbatim>\<open>${i}\<close> renders
  for a loop counter (a non-negative integer): its decimal digits.
\<close>

definition digit_char :: "nat \<Rightarrow> char" where
  "digit_char d = ''0123456789'' ! d"

fun show_nat :: "nat \<Rightarrow> string" where
  "show_nat n =
     (if n < 10 then [digit_char n] else show_nat (n div 10) @ [digit_char (n mod 10)])"

declare show_nat.simps [simp del]

text \<open>\<^verbatim>\<open>s.endsWith(t)\<close>.\<close>

definition endsWith :: "string \<Rightarrow> string \<Rightarrow> bool" where
  "endsWith s t = (length t \<le> length s \<and> drop (length s - length t) s = t)"

text \<open>
  A string read from a file can hold any character: it is modelled as the list of its
  UTF-16 code units, as the language has it. \<open>utf16\<close> embeds the strings above.
\<close>

type_synonym jstring = "nat list"

definition utf16 :: "string \<Rightarrow> jstring" where
  "utf16 s = map of_char s"

text \<open>
  Decoding the bytes of a file as UTF-8, the way \<^verbatim>\<open>readTextFile\<close> does: every maximal
  ill-formed part is replaced by U+FFFD, and decoding goes on at the byte that broke the
  sequence. The result is the list of code points; a byte order mark is kept.
\<close>

definition continuation :: "nat \<Rightarrow> bool" where
  "continuation b = (128 \<le> b \<and> b \<le> 191)"

fun utf8_decode :: "nat list \<Rightarrow> nat list" where
  "utf8_decode [] = []"
| "utf8_decode (b # bs) =
     (if b < 128 then b # utf8_decode bs
      else if 194 \<le> b \<and> b \<le> 223 then
        (case bs of
           [] \<Rightarrow> [65533]
         | c1 # r1 \<Rightarrow>
             if continuation c1 then ((b mod 32) * 64 + c1 mod 64) # utf8_decode r1
             else 65533 # utf8_decode bs)
      else if 224 \<le> b \<and> b \<le> 239 then
        (case bs of
           [] \<Rightarrow> [65533]
         | c1 # r1 \<Rightarrow>
             if (if b = 224 then 160 else 128) \<le> c1 \<and> c1 \<le> (if b = 237 then 159 else 191) then
               (case r1 of
                  [] \<Rightarrow> [65533]
                | c2 # r2 \<Rightarrow>
                    if continuation c2
                    then ((b mod 16) * 4096 + (c1 mod 64) * 64 + c2 mod 64) # utf8_decode r2
                    else 65533 # utf8_decode r1)
             else 65533 # utf8_decode bs)
      else if 240 \<le> b \<and> b \<le> 244 then
        (case bs of
           [] \<Rightarrow> [65533]
         | c1 # r1 \<Rightarrow>
             if (if b = 240 then 144 else 128) \<le> c1 \<and> c1 \<le> (if b = 244 then 143 else 191) then
               (case r1 of
                  [] \<Rightarrow> [65533]
                | c2 # r2 \<Rightarrow>
                    if continuation c2 then
                      (case r2 of
                         [] \<Rightarrow> [65533]
                       | c3 # r3 \<Rightarrow>
                           if continuation c3
                           then ((b mod 8) * 262144 + (c1 mod 64) * 4096 + (c2 mod 64) * 64 + c3 mod 64)
                                # utf8_decode r3
                           else 65533 # utf8_decode r2)
                    else 65533 # utf8_decode r1)
             else 65533 # utf8_decode bs)
      else 65533 # utf8_decode bs)"

text \<open>Code points as UTF-16 code units: one unit, or a surrogate pair from U+10000 on.\<close>

definition utf16_encode :: "nat list \<Rightarrow> jstring" where
  "utf16_encode cps =
     concat (map (\<lambda>cp. if cp < 65536 then [cp]
                        else [55296 + (cp - 65536) div 1024, 56320 + (cp - 65536) mod 1024]) cps)"

text \<open>\<^verbatim>\<open>s.split(c)\<close> for a one-character separator: never empty, \<open>[[]]\<close> on the empty string.\<close>

fun split :: "'a \<Rightarrow> 'a list \<Rightarrow> 'a list list" where
  "split c [] = [[]]"
| "split c (x # xs) =
     (if x = c then [] # split c xs
      else (case split c xs of [] \<Rightarrow> [[x]] | p # ps \<Rightarrow> (x # p) # ps))"

text \<open>
  \<^verbatim>\<open>s.trim()\<close> and the white space that \<^verbatim>\<open>Number\<close> strips: the language's WhiteSpace and
  LineTerminator code units (TAB, LF, VT, FF, CR, SP, NBSP, U+1680, U+2000 to U+200A,
  U+2028, U+2029, U+202F, U+205F, U+3000 and U+FEFF).
\<close>

definition is_space :: "nat \<Rightarrow> bool" where
  "is_space c =
     (c \<in> {9, 10, 11, 12, 13, 32, 160, 5760, 8232, 8233, 8239, 8287, 12288, 65279}
      \<or> (8192 \<le> c \<and> c \<le> 8202))"

definition trim :: "jstring \<Rightarrow> jstring" where
  "trim s = rev (dropWhile is_space (rev (dropWhile is_space s)))"

subsection \<open>Numbers: \<^verbatim>\<open>Number(string)\<close> and the comparisons of line 45\<close>

text \<open>
  A JavaScript number is NaN, an infinity or a finite double; the finite doubles are
  rationals. \<open>to_double\<close> rounds a rational to the nearest double, ties to the even
  significand: with \<open>2 ^ e \<le> |x| < 2 ^ (e + 1)\<close> and \<open>e\<close> no less than -1022 (below,
  the doubles are subnormal), the doubles around \<open>x\<close> are the multiples of
  \<open>2 ^ (e - 52)\<close>; a result of \<open>2 ^ 1024\<close> or more is an infinity.
\<close>

datatype jsnum = NaN | NegInf | Fin rat | PosInf

fun bit_length :: "nat \<Rightarrow> nat" where
  "bit_length n = (if n = 0 then 0 else Suc (bit_length (n div 2)))"

declare bit_length.simps [simp del]

text \<open>For \<open>x > 0\<close>, the \<open>e\<close> with \<open>2 ^ e \<le> x < 2 ^ (e + 1)\<close>.\<close>

definition binary_exponent :: "rat \<Rightarrow> int" where
  "binary_exponent x =
     (if 1 \<le> x then int (bit_length (nat \<lfloor>x\<rfloor>)) - 1
      else - int (bit_length (nat \<lceil>1 / x\<rceil> - 1)))"

definition pow2 :: "int \<Rightarrow> rat" where
  "pow2 e = (if 0 \<le> e then 2 ^ nat e else 1 / 2 ^ nat (- e))"

definition round_half_even :: "rat \<Rightarrow> int" where
  "round_half_even y =
     (let f = \<lfloor>y\<rfloor>; r = y - of_int f
      in if r < 1 / 2 then f else if 1 / 2 < r then f + 1 else if even f then f else f + 1)"

definition to_double :: "rat \<Rightarrow> jsnum" where
  "to_double x =
     (if x = 0 then Fin 0
      else
        let a = \<bar>x\<bar>;
            e = max (binary_exponent a) (- 1022);
            q = pow2 (e - 52);
            v = of_int (round_half_even (a / q)) * q
        in if pow2 1024 \<le> v then (if x < 0 then NegInf else PosInf)
           else Fin (if x < 0 then - v else v))"

text \<open>
  \<open>Number\<close> follows the language's StringToNumber: strip white space; the empty string
  is 0; otherwise the whole text must be a signed decimal literal (digits, an optional
  fraction, an optional exponent, or \<^verbatim>\<open>Infinity\<close>) or an unsigned binary, octal or
  hexadecimal integer literal, and the result is its mathematical value rounded to a
  double; anything else is NaN.
\<close>

definition is_digit :: "nat \<Rightarrow> bool" where
  "is_digit c = (48 \<le> c \<and> c \<le> 57)"

definition digit_val :: "nat \<Rightarrow> nat" where
  "digit_val c = c - 48"

definition hex_val :: "nat \<Rightarrow> nat option" where
  "hex_val n =
     (if 48 \<le> n \<and> n \<le> 57 then Some (n - 48)
      else if 97 \<le> n \<and> n \<le> 102 then Some (n - 87)
      else if 65 \<le> n \<and> n \<le> 70 then Some (n - 55)
      else None)"

definition decimal_val :: "jstring \<Rightarrow> nat" where
  "decimal_val ds = foldl (\<lambda>acc c. acc * 10 + digit_val c) 0 ds"

text \<open>Digits of a radix (2, 8 or 16): \<open>None\<close> unless every character is a digit below it.\<close>

definition radix_val :: "nat \<Rightarrow> jstring \<Rightarrow> nat option" where
  "radix_val b ds =
     (if ds \<noteq> [] \<and> list_all (\<lambda>c. case hex_val c of None \<Rightarrow> False | Some v \<Rightarrow> v < b) ds
      then Some (foldl (\<lambda>acc c. acc * b + (case hex_val c of None \<Rightarrow> 0 | Some v \<Rightarrow> v)) 0 ds)
      else None)"

definition non_decimal :: "jstring \<Rightarrow> nat option" where
  "non_decimal t =
     (case t of
        z # r # ds \<Rightarrow>
          (if z \<noteq> of_char CHR ''0'' then None
           else if r = of_char CHR ''x'' \<or> r = of_char CHR ''X'' then radix_val 16 ds
           else if r = of_char CHR ''o'' \<or> r = of_char CHR ''O'' then radix_val 8 ds
           else if r = of_char CHR ''b'' \<or> r = of_char CHR ''B'' then radix_val 2 ds
           else None)
      | _ \<Rightarrow> None)"

text \<open>The exponent part after \<^verbatim>\<open>e\<close>: an optional sign and at least one digit.\<close>

definition signed_integer :: "jstring \<Rightarrow> int option" where
  "signed_integer t =
     (let (neg, ds) = (case t of c # r \<Rightarrow>
                         (if c = of_char CHR ''-'' then (True, r)
                          else if c = of_char CHR ''+'' then (False, r) else (False, t))
                       | [] \<Rightarrow> (False, t))
      in if ds \<noteq> [] \<and> list_all is_digit ds
         then Some (if neg then - int (decimal_val ds) else int (decimal_val ds))
         else None)"

definition unsigned_decimal :: "jstring \<Rightarrow> rat option" where
  "unsigned_decimal r =
     (let ip = takeWhile is_digit r;
          r1 = dropWhile is_digit r;
          fp = (case r1 of c # t \<Rightarrow> (if c = of_char CHR ''.'' then takeWhile is_digit t else [])
                | [] \<Rightarrow> []);
          r2 = (case r1 of c # t \<Rightarrow> (if c = of_char CHR ''.'' then dropWhile is_digit t else r1)
                | [] \<Rightarrow> []);
          mant = of_nat (decimal_val ip) + of_nat (decimal_val fp) / 10 ^ length fp
      in if ip = [] \<and> fp = [] then None
         else (case r2 of
                 [] \<Rightarrow> Some mant
               | c # t \<Rightarrow>
                   (if c = of_char CHR ''e'' \<or> c = of_char CHR ''E''
                    then (case signed_integer t of
                            None \<Rightarrow> None
                          | Some e \<Rightarrow> Some (mant * (if 0 \<le> e then 10 ^ nat e else 1 / 10 ^ nat (- e))))
                    else None)))"

definition str_decimal :: "jstring \<Rightarrow> jsnum" where
  "str_decimal t =
     (let (neg, r) = (case t of c # u \<Rightarrow>
                        (if c = of_char CHR ''-'' then (True, u)
                         else if c = of_char CHR ''+'' then (False, u) else (False, t))
                      | [] \<Rightarrow> (False, t))
      in if r = utf16 ''Infinity'' then (if neg then NegInf else PosInf)
         else (case unsigned_decimal r of
                 None \<Rightarrow> NaN
               | Some v \<Rightarrow> to_double (if neg then - v else v)))"

definition Number :: "jstring \<Rightarrow> jsnum" where
  "Number s =
     (let t = trim s in
      if t = [] then Fin 0
      else (case non_decimal t of Some n \<Rightarrow> to_double (of_nat n) | None \<Rightarrow> str_decimal t))"

text \<open>
  \<^verbatim>\<open>a > k\<close>, \<^verbatim>\<open>a === k\<close> and \<^verbatim>\<open>a >= k\<close> for a numeric literal \<open>k\<close>. The left operand
  comes out of the destructuring \<^verbatim>\<open>[major, minor] = ...\<close>: \<open>None\<close> is \<^verbatim>\<open>undefined\<close>
  (the array was too short). Every comparison with NaN or \<^verbatim>\<open>undefined\<close> is false.
\<close>

fun js_gt :: "jsnum option \<Rightarrow> rat \<Rightarrow> bool" where
  "js_gt (Some (Fin a)) k = (a > k)"
| "js_gt (Some PosInf) k = True"
| "js_gt _ k = False"

fun js_strict_eq :: "jsnum option \<Rightarrow> rat \<Rightarrow> bool" where
  "js_strict_eq (Some (Fin a)) k = (a = k)"
| "js_strict_eq _ k = False"

fun js_ge :: "jsnum option \<Rightarrow> rat \<Rightarrow> bool" where
  "js_ge (Some (Fin a)) k = (a \<ge> k)"
| "js_ge (Some PosInf) k = True"
| "js_ge _ k = False"

text \<open>The element at an index of an array, \<^verbatim>\<open>undefined\<close> beyond its end.\<close>

definition element :: "'a list \<Rightarrow> nat \<Rightarrow> 'a option" where
  "element xs i = (if i < length xs then Some (xs ! i) else None)"

subsection \<open>The world: files, clock, operations performed, console\<close>

text \<open>
  The runtime's file system is a table from paths to nodes, in the order a directory
  listing yields them. A node is a regular file (with its bytes), a directory or a
  symbolic link. \<open>fault\<close> is the environment's say on whether operations on the node
  fail (permission denied, an I/O error): \<open>Some e\<close> makes every operation on that path
  throw \<open>e\<close>.
\<close>

datatype fs_error =
  NotFound | AlreadyExists | IsADirectory | NotADirectory | DirectoryNotEmpty
  | PermissionDenied | IOError

datatype exn = FsError fs_error | SyntaxError

datatype kind = RegularFile | Directory | Symlink

record node =
  kind :: kind
  bytes :: "nat list"
  fault :: "fs_error option"

text \<open>The entries \<^verbatim>\<open>Deno.readDir\<close> yields and the record \<^verbatim>\<open>Deno.stat\<close> resolves to.\<close>

record entry =
  name :: string
  isFile :: bool
  isDirectory :: bool
  isSymlink :: bool

record file_info =
  info_isFile :: bool
  info_size :: nat

datatype fs_op =
  Mkdir string
  | WriteFile string "nat list"
  | ReadFile string
  | Stat string
  | Remove string
  | ReadDir string

text \<open>
  The lines the script prints. \<open>Fixed l\<close> is the output of the \<^verbatim>\<open>console.log\<close>
  statement at source line \<open>l\<close>, for the statements whose text depends on neither the
  files nor the clock; the other statements have a constructor each, carrying the
  values they print.
\<close>

datatype line =
  Fixed nat
  | Kernel jstring
  | KernelSupports
  | KernelDoesNotSupport
  | KernelUnknown
  | Testing string nat
  | TestingConcurrent string nat
  | WriteAvg real
  | ReadAvg real
  | StatAvg real
  | ConcurrentTotal real
  | PerOperation real
  | ProcessingTime real

text \<open>
  \<open>now\<close> is what \<^verbatim>\<open>performance.now()\<close> reads. An awaited file operation takes
  \<open>latency w op\<close> milliseconds, whether it succeeds or throws; the latencies are the
  environment's (the quantity the script measures). \<open>performed\<close> lists the operations
  in the order they completed.
\<close>

record world =
  nodes :: "(string \<times> node) list"
  now :: real
  latency :: "fs_op \<Rightarrow> real"
  performed :: "fs_op list"
  console :: "line list"

text \<open>
  An asynchronous computation, awaited: it ends in a value (\<open>Inr\<close>) or in a thrown
  exception (\<open>Inl\<close>), and in either case leaves a world behind.
\<close>

type_synonym 'a io = "world \<Rightarrow> (exn + 'a) \<times> world"

definition return_io :: "'a \<Rightarrow> 'a io" where
  "return_io x = (\<lambda>w. (Inr x, w))"

definition throw_io :: "exn \<Rightarrow> 'a io" where
  "throw_io e = (\<lambda>w. (Inl e, w))"

definition bind_io :: "'a io \<Rightarrow> ('a \<Rightarrow> 'b io) \<Rightarrow> 'b io" where
  "bind_io m f = (\<lambda>w. case m w of (Inl e, w') \<Rightarrow> (Inl e, w') | (Inr x, w') \<Rightarrow> f x w')"

text \<open>\<^verbatim>\<open>try { m } catch { h }\<close>: the handler runs in the world the exception left.\<close>

definition try_catch :: "'a io \<Rightarrow> 'a io \<Rightarrow> 'a io" where
  "try_catch m h = (\<lambda>w. case m w of (Inl e, w') \<Rightarrow> h w' | (Inr x, w') \<Rightarrow> (Inr x, w'))"

text \<open>\<^verbatim>\<open>for (const x of xs) { await body(x) }\<close>: an exception ends the loop.\<close>

fun for_each :: "'a list \<Rightarrow> ('a \<Rightarrow> unit io) \<Rightarrow> unit io" where
  "for_each [] body = return_io ()"
| "for_each (x # xs) body = bind_io (body x) (\<lambda>_. for_each xs body)"

text \<open>
  \<^verbatim>\<open>await Promise.all(xs.map(f))\<close>, under the schedule in which the operations complete
  in the order of the list. Every operation runs, also after one has failed; the
  awaited value is the list of results, or the first exception. Under this schedule the
  clock advances by the sum of the latencies; what a batch takes when its operations
  overlap is not modelled, and no property below is about the duration of a batch.
\<close>

fun promise_all :: "'a io list \<Rightarrow> 'a list io" where
  "promise_all [] = return_io []"
| "promise_all (m # ms) =
     (\<lambda>w. case m w of
        (Inl e, w') \<Rightarrow> (Inl e, snd (promise_all ms w'))
      | (Inr x, w') \<Rightarrow>
          (case promise_all ms w' of
             (Inl e, w'') \<Rightarrow> (Inl e, w'')
           | (Inr xs, w'') \<Rightarrow> (Inr (x # xs), w'')))"

definition console_log :: "line \<Rightarrow> unit io" where
  "console_log l = (\<lambda>w. (Inr (), w\<lparr>console := console w @ [l]\<rparr>))"

definition performance_now :: "real io" where
  "performance_now = (\<lambda>w. (Inr (now w), w))"

subsection \<open>The file operations of the runtime\<close>

text \<open>
  The script calls the runtime's file operations (\<^verbatim>\<open>Deno.mkdir\<close>, \<^verbatim>\<open>Deno.writeFile\<close>,
  \<^verbatim>\<open>Deno.readFile\<close>, \<^verbatim>\<open>Deno.stat\<close>, \<^verbatim>\<open>Deno.remove\<close>, \<^verbatim>\<open>Deno.readDir\<close> and the two
  text variants). They are implemented in \<^verbatim>\<open>ext/fs\<close>, of which only the README is among
  the sources, so each is modelled from the specification's file system capability
  surface (section 6) and its fault taxonomy (section 7): an operation either
  completes or throws, creating what exists throws, removing or listing what does not
  exist throws.
\<close>

text \<open>Performing an operation: it is recorded and the clock advances by its latency.\<close>

definition perform :: "fs_op \<Rightarrow> world \<Rightarrow> world" where
  "perform op w = w\<lparr>now := now w + latency w op, performed := performed w @ [op]\<rparr>"

text \<open>The directory part and the last component of a path.\<close>

definition dirname :: "string \<Rightarrow> string" where
  "dirname p = rev (tl (dropWhile (\<lambda>c. c \<noteq> CHR ''/'') (rev p)))"

definition basename :: "string \<Rightarrow> string" where
  "basename p = rev (takeWhile (\<lambda>c. c \<noteq> CHR ''/'') (rev p))"

definition is_child :: "string \<Rightarrow> string \<Rightarrow> bool" where
  "is_child dir p = (basename p \<noteq> [] \<and> p = dir @ ''/'' @ basename p)"

definition is_dir :: "world \<Rightarrow> string \<Rightarrow> bool" where
  "is_dir w p = (case map_of (nodes w) p of None \<Rightarrow> False | Some n \<Rightarrow> kind n = Directory)"

definition put :: "string \<Rightarrow> node \<Rightarrow> (string \<times> node) list \<Rightarrow> (string \<times> node) list" where
  "put p n fs =
     (if p \<in> set (map fst fs) then map (\<lambda>(q, m). if q = p then (q, n) else (q, m)) fs
      else fs @ [(p, n)])"

text \<open>
  Modelled from the spec: \<^verbatim>\<open>Deno.mkdir(path)\<close>, the capability \<^verbatim>\<open>createDirectory\<close>
  (missing: \<^verbatim>\<open>ext/fs\<close>). It fails when the path exists ("directory-already-exists on
  creation") or its parent is not a directory.
\<close>

definition Deno_mkdir :: "string \<Rightarrow> unit io" where
  "Deno_mkdir p = (\<lambda>w0.
     let w = perform (Mkdir p) w0 in
     case map_of (nodes w) p of
       Some n \<Rightarrow> (Inl (FsError AlreadyExists), w)
     | None \<Rightarrow>
         (if is_dir w (dirname p)
          then (Inr (), w\<lparr>nodes := put p \<lparr>kind = Directory, bytes = [], fault = None\<rparr> (nodes w)\<rparr>)
          else (Inl (FsError NotFound), w)))"

text \<open>
  Modelled from the spec: \<^verbatim>\<open>Deno.writeFile(path, data)\<close>, the capability \<^verbatim>\<open>writeBytes\<close>
  (missing: \<^verbatim>\<open>ext/fs\<close>). It creates the file or replaces its content, and fails on a
  directory, on a faulty node and when the parent is not a directory.
\<close>

definition Deno_writeFile :: "string \<Rightarrow> nat list \<Rightarrow> unit io" where
  "Deno_writeFile p d = (\<lambda>w0.
     let w = perform (WriteFile p d) w0 in
     case map_of (nodes w) p of
       Some n \<Rightarrow>
         (if kind n = Directory then (Inl (FsError IsADirectory), w)
          else (case fault n of
                  Some e \<Rightarrow> (Inl (FsError e), w)
                | None \<Rightarrow> (Inr (), w\<lparr>nodes := put p (n\<lparr>bytes := d\<rparr>) (nodes w)\<rparr>)))
     | None \<Rightarrow>
         (if is_dir w (dirname p)
          then (Inr (), w\<lparr>nodes := put p \<lparr>kind = RegularFile, bytes = d, fault = None\<rparr> (nodes w)\<rparr>)
          else (Inl (FsError NotFound), w)))"

text \<open>
  Modelled from the spec: \<^verbatim>\<open>Deno.readFile(path)\<close>, the capability \<^verbatim>\<open>readBytes\<close> (missing:
  \<^verbatim>\<open>ext/fs\<close>). It resolves to the bytes of the file, and fails when there is none, on a
  directory and on a faulty node.
\<close>

definition Deno_readFile :: "string \<Rightarrow> nat list io" where
  "Deno_readFile p = (\<lambda>w0.
     let w = perform (ReadFile p) w0 in
     case map_of (nodes w) p of
       None \<Rightarrow> (Inl (FsError NotFound), w)
     | Some n \<Rightarrow>
         (if kind n = Directory then (Inl (FsError IsADirectory), w)
          else (case fault n of
                  Some e \<Rightarrow> (Inl (FsError e), w)
                | None \<Rightarrow> (Inr (bytes n), w))))"

text \<open>
  Modelled from the spec: \<^verbatim>\<open>Deno.stat(path)\<close>, the capability \<^verbatim>\<open>statMetadata\<close> (missing:
  \<^verbatim>\<open>ext/fs\<close>). It resolves to the metadata of the node, and fails when there is none and
  on a faulty node.
\<close>

definition Deno_stat :: "string \<Rightarrow> file_info io" where
  "Deno_stat p = (\<lambda>w0.
     let w = perform (Stat p) w0 in
     case map_of (nodes w) p of
       None \<Rightarrow> (Inl (FsError NotFound), w)
     | Some n \<Rightarrow>
         (case fault n of
            Some e \<Rightarrow> (Inl (FsError e), w)
          | None \<Rightarrow> (Inr \<lparr>info_isFile = (kind n = RegularFile), info_size = length (bytes n)\<rparr>, w)))"

text \<open>
  Modelled from the spec: \<^verbatim>\<open>Deno.remove(path)\<close>, the capability \<^verbatim>\<open>removeEntry\<close> (missing:
  \<^verbatim>\<open>ext/fs\<close>), not recursive. It removes a file, a link or an empty directory, and
  fails when there is no such entry ("entry-already-removed"), on a faulty node and on a
  directory that is not empty.
\<close>

definition Deno_remove :: "string \<Rightarrow> unit io" where
  "Deno_remove p = (\<lambda>w0.
     let w = perform (Remove p) w0 in
     case map_of (nodes w) p of
       None \<Rightarrow> (Inl (FsError NotFound), w)
     | Some n \<Rightarrow>
         (case fault n of
            Some e \<Rightarrow> (Inl (FsError e), w)
          | None \<Rightarrow>
              (if kind n = Directory \<and> list_ex (\<lambda>(q, m). is_child p q) (nodes w)
               then (Inl (FsError DirectoryNotEmpty), w)
               else (Inr (), w\<lparr>nodes := filter (\<lambda>(q, m). q \<noteq> p) (nodes w)\<rparr>))))"

text \<open>
  Modelled from the spec: \<^verbatim>\<open>Deno.readDir(path)\<close>, iterated, the capability
  \<^verbatim>\<open>listDirectoryEntries\<close> (missing: \<^verbatim>\<open>ext/fs\<close>). The listing is taken when the iteration
  starts; it fails when the path does not exist ("directory-not-found on listing"), is
  not a directory or is faulty.
\<close>

definition entry_of :: "string \<times> node \<Rightarrow> entry" where
  "entry_of pn =
     \<lparr>name = basename (fst pn), isFile = (kind (snd pn) = RegularFile),
      isDirectory = (kind (snd pn) = Directory), isSymlink = (kind (snd pn) = Symlink)\<rparr>"

definition Deno_readDir :: "string \<Rightarrow> entry list io" where
  "Deno_readDir p = (\<lambda>w0.
     let w = perform (ReadDir p) w0 in
     case map_of (nodes w) p of
       None \<Rightarrow> (Inl (FsError NotFound), w)
     | Some n \<Rightarrow>
         (if kind n \<noteq> Directory then (Inl (FsError NotADirectory), w)
          else (case fault n of
                  Some e \<Rightarrow> (Inl (FsError e), w)
                | None \<Rightarrow> (Inr (map entry_of (filter (\<lambda>(q, m). is_child p q) (nodes w))), w))))"

text \<open>
  Modelled from the spec: \<^verbatim>\<open>Deno.writeTextFile\<close> and \<^verbatim>\<open>Deno.readTextFile\<close>, the
  capabilities \<^verbatim>\<open>writeText\<close> and \<^verbatim>\<open>readText\<close> (missing: \<^verbatim>\<open>ext/fs\<close>). The texts the
  script writes are ASCII, whose UTF-8 bytes are the character codes. Reading decodes
  the bytes of the file, whatever they are, into a string of the language.
\<close>

definition Deno_writeTextFile :: "string \<Rightarrow> string \<Rightarrow> unit io" where
  "Deno_writeTextFile p s = Deno_writeFile p (map of_char s)"

definition Deno_readTextFile :: "string \<Rightarrow> jstring io" where
  "Deno_readTextFile p =
     bind_io (Deno_readFile p) (\<lambda>bs. return_io (utf16_encode (utf8_decode bs)))"

subsection \<open>The environment probe (lines 40 to 53)\<close>

definition then_io :: "'a io \<Rightarrow> 'b io \<Rightarrow> 'b io" where
  "then_io m k = bind_io m (\<lambda>_. k)"

text \<open>The destructuring of line 44 and the condition of line 45.\<close>

definition supports_io_uring :: "jstring \<Rightarrow> bool" where
  "supports_io_uring kernelVersion =
     (let parts = map Number (split (of_char CHR ''.'') kernelVersion);
          major = element parts 0;
          minor = element parts 1
      in js_gt major 5 \<or> (js_strict_eq major 5 \<and> js_ge minor 6))"

text \<open>\<open>os\<close> is \<^verbatim>\<open>Deno.build.os\<close>.\<close>

definition kernel_probe :: "string \<Rightarrow> unit io" where
  "kernel_probe os =
     (if os = ''linux'' then
        try_catch
          (bind_io (Deno_readTextFile ''/proc/sys/kernel/osrelease'') (\<lambda>kernelVersion.
           then_io (console_log (Kernel (trim kernelVersion)))
             (if supports_io_uring kernelVersion
              then console_log KernelSupports
              else console_log KernelDoesNotSupport)))
          (console_log KernelUnknown)
      else return_io ())"

subsection \<open>The benchmark functions (lines 132 to 226)\<close>

text \<open>The paths the template literals build.\<close>

definition write_path :: "string \<Rightarrow> nat \<Rightarrow> string" where
  "write_path dir i = dir @ ''/write_'' @ show_nat i @ ''.tmp''"

definition read_path :: "string \<Rightarrow> nat \<Rightarrow> string" where
  "read_path dir i = dir @ ''/read_'' @ show_nat i @ ''.tmp''"

definition stat_path :: "string \<Rightarrow> string" where
  "stat_path dir = dir @ ''/stat.tmp''"

definition concurrent_path :: "string \<Rightarrow> nat \<Rightarrow> string" where
  "concurrent_path dir i = dir @ ''/concurrent_'' @ show_nat i @ ''.tmp''"

text \<open>
  \<^verbatim>\<open>new Uint8Array(size)\<close> is \<open>replicate sz 0\<close>. The mean is \<^verbatim>\<open>elapsed / iterations\<close>;
  the script calls the functions with 100 iterations only.
\<close>

definition benchWrite :: "nat \<Rightarrow> nat \<Rightarrow> string \<Rightarrow> real io" where
  "benchWrite sz iterations dir =
     (let data = replicate sz 0 in
      bind_io performance_now (\<lambda>start.
      then_io (for_each [0..<iterations] (\<lambda>i. Deno_writeFile (write_path dir i) data))
     (bind_io performance_now (\<lambda>finish.
      let elapsed = finish - start in
      return_io (elapsed / real iterations)))))"

definition benchRead :: "nat \<Rightarrow> nat \<Rightarrow> string \<Rightarrow> real io" where
  "benchRead sz iterations dir =
     (let data = replicate sz 0 in
      then_io (for_each [0..<iterations] (\<lambda>i. Deno_writeFile (read_path dir i) data))
     (bind_io performance_now (\<lambda>start.
      then_io (for_each [0..<iterations] (\<lambda>i. then_io (Deno_readFile (read_path dir i)) (return_io ())))
     (bind_io performance_now (\<lambda>finish.
      let elapsed = finish - start in
      return_io (elapsed / real iterations))))))"

definition benchStat :: "nat \<Rightarrow> string \<Rightarrow> real io" where
  "benchStat iterations dir =
     then_io (Deno_writeFile (stat_path dir) [1, 2, 3])
    (bind_io performance_now (\<lambda>start.
     then_io (for_each [0..<iterations] (\<lambda>i. then_io (Deno_stat (stat_path dir)) (return_io ())))
    (bind_io performance_now (\<lambda>finish.
     let elapsed = finish - start in
     return_io (elapsed / real iterations)))))"

text \<open>One chain of the concurrent batch: the body of the function of lines 179 to 184.\<close>

definition chain :: "string \<Rightarrow> nat list \<Rightarrow> nat \<Rightarrow> unit io" where
  "chain dir data i =
     (let path = concurrent_path dir i in
      then_io (Deno_writeFile path data)
     (then_io (Deno_readFile path)
     (then_io (Deno_stat path) (return_io ()))))"

definition benchConcurrent :: "nat \<Rightarrow> nat \<Rightarrow> string \<Rightarrow> real io" where
  "benchConcurrent sz concurrent dir =
     (let data = replicate sz 0 in
      bind_io performance_now (\<lambda>start.
      then_io (promise_all (map (chain dir data) [0..<concurrent]))
     (bind_io performance_now (\<lambda>finish.
      let elapsed = finish - start in
      return_io elapsed))))"

text \<open>
  The values the scenario serialises, and \<^verbatim>\<open>JSON.stringify\<close> on them (the strings
  need no escaping, the numbers are integers).
\<close>

datatype json = JString string | JNumber int | JArray "json list" | JObject "(string \<times> json) list"

definition quote :: "string \<Rightarrow> string" where
  "quote s = [CHR 0x22] @ s @ [CHR 0x22]"

fun join :: "string \<Rightarrow> string list \<Rightarrow> string" where
  "join sep [] = []"
| "join sep [x] = x"
| "join sep (x # y # ys) = x @ sep @ join sep (y # ys)"

fun JSON_stringify :: "json \<Rightarrow> string" where
  "JSON_stringify (JString s) = quote s"
| "JSON_stringify (JNumber n) = (if n < 0 then ''-'' @ show_nat (nat (- n)) else show_nat (nat n))"
| "JSON_stringify (JArray xs) = ''['' @ join '','' (map JSON_stringify xs) @ '']''"
| "JSON_stringify (JObject kvs) =
     ''{'' @ join '','' (map (\<lambda>kv. quote (fst kv) @ '':'' @ JSON_stringify (snd kv)) kvs) @ ''}''"

record document =
  doc_name :: string
  content :: string

definition scenario_files :: "document list" where
  "scenario_files =
    [ \<lparr>doc_name = ''config.json'',
       content = JSON_stringify (JObject [(''app'', JString ''deno''), (''version'', JString ''1.0'')])\<rparr>,
      \<lparr>doc_name = ''settings.json'',
       content = JSON_stringify (JObject [(''theme'', JString ''dark''), (''lang'', JString ''en'')])\<rparr>,
      \<lparr>doc_name = ''data.json'',
       content = JSON_stringify (JObject [(''items'',
         JArray (replicate 100 (JObject [(''id'', JNumber 1), (''value'', JString ''test'')])))])\<rparr>,
      \<lparr>doc_name = ''cache.json'',
       content = JSON_stringify (JObject [(''cache'',
         JArray (replicate 1000 (JString (replicate 100 CHR ''x''))))])\<rparr> ]"

text \<open>
  \<open>JSON_parse\<close> is the runtime's \<^verbatim>\<open>JSON.parse\<close>: the parsed value, or the
  SyntaxError it throws.
\<close>

definition benchRealWorldScenario :: "(jstring \<Rightarrow> exn + json) \<Rightarrow> string \<Rightarrow> real io" where
  "benchRealWorldScenario JSON_parse dir =
     bind_io performance_now (\<lambda>start.
     then_io (promise_all (map (\<lambda>file. Deno_writeTextFile (dir @ ''/'' @ doc_name file) (content file))
                scenario_files))
    (bind_io (promise_all (map (\<lambda>file. Deno_readTextFile (dir @ ''/'' @ doc_name file)) scenario_files))
       (\<lambda>contents.
     then_io (for_each contents
                (\<lambda>c. case JSON_parse c of Inl e \<Rightarrow> throw_io e | Inr v \<Rightarrow> return_io ()))
    (then_io (promise_all (map (\<lambda>file. Deno_stat (dir @ ''/'' @ doc_name file)) scenario_files))
    (bind_io performance_now (\<lambda>finish.
     let elapsed = finish - start in
     return_io elapsed))))))"

subsection \<open>\<^verbatim>\<open>cleanup\<close> (lines 228 to 246)\<close>

text \<open>The body of the loop of lines 230 to 234 and the list of line 236.\<close>

definition remove_if_tmp :: "string \<Rightarrow> entry \<Rightarrow> unit io" where
  "remove_if_tmp dir entry =
     (if isFile entry \<and> endsWith (name entry) ''.tmp''
      then Deno_remove (dir @ ''/'' @ name entry)
      else return_io ())"

definition scenario_names :: "string list" where
  "scenario_names = [''config.json'', ''settings.json'', ''data.json'', ''cache.json'']"

definition cleanup :: "string \<Rightarrow> unit io" where
  "cleanup dir =
     try_catch
       (bind_io (Deno_readDir dir) (\<lambda>entries.
        then_io (for_each entries (remove_if_tmp dir))
          (for_each scenario_names
             (\<lambda>scenario_name.
                try_catch (Deno_remove (dir @ ''/'' @ scenario_name)) (return_io ())))))
       (return_io ())"

subsection \<open>The top level of the script (lines 28 to 128)\<close>

definition testDir :: string where
  "testDir = ''./bench_deno_tmp''"

definition log_all :: "line list \<Rightarrow> unit io" where
  "log_all ls = for_each ls console_log"

definition report_environment :: "string \<Rightarrow> unit io" where
  "report_environment os =
     then_io (log_all (map Fixed [28, 29, 30, 33, 34, 35, 36, 37, 38]))
    (then_io (kernel_probe os)
       (log_all (map Fixed [54, 56, 57])))"

definition ensure_workspace :: "unit io" where
  "ensure_workspace = try_catch (Deno_mkdir testDir) (return_io ())"

definition single_bucket :: "bucket \<Rightarrow> unit io" where
  "single_bucket b =
     then_io (console_log (Testing (bname b) ITERATIONS))
    (bind_io (benchWrite (bsize b) ITERATIONS testDir) (\<lambda>writeTime.
     then_io (console_log (WriteAvg writeTime))
    (bind_io (benchRead (bsize b) ITERATIONS testDir) (\<lambda>readTime.
     then_io (console_log (ReadAvg readTime))
    (bind_io (benchStat ITERATIONS testDir) (\<lambda>statTime.
     then_io (console_log (StatAvg statTime))
    (then_io (cleanup testDir)
       (console_log (Fixed 88)))))))))"

definition concurrent_bucket :: "bucket \<Rightarrow> unit io" where
  "concurrent_bucket b =
     then_io (console_log (TestingConcurrent (bname b) CONCURRENT_OPS))
    (bind_io (benchConcurrent (bsize b) CONCURRENT_OPS testDir) (\<lambda>concurrentTime.
     then_io (console_log (ConcurrentTotal concurrentTime))
    (then_io (console_log (PerOperation (concurrentTime / real CONCURRENT_OPS)))
    (then_io (cleanup testDir)
       (console_log (Fixed 103))))))"

definition scenario_phase :: "(jstring \<Rightarrow> exn + json) \<Rightarrow> unit io" where
  "scenario_phase JSON_parse =
     then_io (log_all (map Fixed [106, 107, 108]))
    (bind_io (benchRealWorldScenario JSON_parse testDir) (\<lambda>scenarioTime.
     console_log (ProcessingTime scenarioTime)))"

definition teardown :: "unit io" where
  "teardown =
     then_io (cleanup testDir)
    (then_io (try_catch (Deno_remove testDir) (return_io ()))
       (log_all (map Fixed [121, 122, 123, 125, 126, 127, 128])))"

text \<open>The whole run. An \<open>Inl\<close> result is an uncaught exception: the process aborts.\<close>

definition main :: "string \<Rightarrow> (jstring \<Rightarrow> exn + json) \<Rightarrow> unit io" where
  "main os JSON_parse =
     then_io (report_environment os)
    (then_io ensure_workspace
    (then_io (log_all (map Fixed [67, 68, 69]))
    (then_io (for_each SIZES single_bucket)
    (then_io (log_all (map Fixed [91, 92, 93]))
    (then_io (for_each SIZES concurrent_bucket)
    (then_io (scenario_phase JSON_parse)
       teardown))))))"

subsection \<open>Notions the properties are stated with\<close>

text \<open>Several operations performed in a row, as far as the clock and the record go.\<close>

definition perform_all :: "fs_op list \<Rightarrow> world \<Rightarrow> world" where
  "perform_all ops w = foldl (\<lambda>v op. perform op v) w ops"

text \<open>The operations of chain \<open>i\<close> of a concurrent batch, when none of them fails.\<close>

definition chain_ops :: "string \<Rightarrow> nat list \<Rightarrow> nat \<Rightarrow> fs_op list" where
  "chain_ops dir data i =
     [WriteFile (concurrent_path dir i) data, ReadFile (concurrent_path dir i),
      Stat (concurrent_path dir i)]"

text \<open>The path an operation targets.\<close>

fun op_path :: "fs_op \<Rightarrow> string" where
  "op_path (Mkdir p) = p"
| "op_path (WriteFile p d) = p"
| "op_path (ReadFile p) = p"
| "op_path (Stat p) = p"
| "op_path (Remove p) = p"
| "op_path (ReadDir p) = p"

text \<open>The exception the parse loop of line 217 ends in, if any: that of the first failing text.\<close>

fun first_error :: "(jstring \<Rightarrow> exn + json) \<Rightarrow> jstring list \<Rightarrow> exn option" where
  "first_error parse [] = None"
| "first_error parse (c # cs) = (case parse c of Inl e \<Rightarrow> Some e | Inr v \<Rightarrow> first_error parse cs)"

text \<open>A regular file of the directory whose name ends in \<^verbatim>\<open>.tmp\<close>.\<close>

definition tmp_file :: "string \<Rightarrow> string \<times> node \<Rightarrow> bool" where
  "tmp_file dir pn =
     (is_child dir (fst pn) \<and> kind (snd pn) = RegularFile \<and> endsWith (basename (fst pn)) ''.tmp'')"

text \<open>
  A healthy workspace: the paths of the table are distinct, the workspace is a directory
  that can be listed, no node is faulty and the workspace holds regular files only.
\<close>

text \<open>A path directly below the directory.\<close>

definition good_path :: "string \<Rightarrow> string \<Rightarrow> bool" where
  "good_path dir p = (is_child dir p \<and> CHR ''/'' \<notin> set (basename p))"

definition workspace_ok :: "string \<Rightarrow> world \<Rightarrow> bool" where
  "workspace_ok dir w =
     (distinct (map fst (nodes w)) \<and>
      (case map_of (nodes w) dir of None \<Rightarrow> False | Some d \<Rightarrow> kind d = Directory) \<and>
      list_all (\<lambda>pn. fault (snd pn) = None \<and> (if is_child dir (fst pn) then kind (snd pn) = RegularFile else True))
        (nodes w))"

text \<open>A node stored at each path of a list, in order.\<close>

definition put_all :: "string list \<Rightarrow> node \<Rightarrow> (string \<times> node) list \<Rightarrow> (string \<times> node) list" where
  "put_all ps n ns = foldl (\<lambda>acc p. put p n acc) ns ps"

text \<open>The paths of the second loop of cleanup.\<close>

definition scenario_paths :: "string \<Rightarrow> string list" where
  "scenario_paths dir = map (\<lambda>n. dir @ ''/'' @ n) scenario_names"

text \<open>
  A computation that, from every world satisfying \<open>I\<close>, ends in a value and in a world
  satisfying \<open>I\<close>.
\<close>

definition succeeds_in :: "(world \<Rightarrow> bool) \<Rightarrow> 'a io \<Rightarrow> bool" where
  "succeeds_in I m = (\<forall>w. I w \<longrightarrow> (\<exists>x. fst (m w) = Inr x) \<and> I (snd (m w)))"

text \<open>Worlds to evaluate the script on.\<close>

definition file_node :: "nat list \<Rightarrow> node" where
  "file_node bs = \<lparr>kind = RegularFile, bytes = bs, fault = None\<rparr>"

definition dir_node :: node where
  "dir_node = \<lparr>kind = Directory, bytes = [], fault = None\<rparr>"

definition world_of :: "(string \<times> node) list \<Rightarrow> world" where
  "world_of ns = \<lparr>nodes = ns, now = 0, latency = (\<lambda>op. 1), performed = [], console = []\<rparr>"

definition osrelease_world :: "nat list \<Rightarrow> world" where
  "osrelease_world bs = world_of [(''/proc/sys/kernel/osrelease'', file_node bs)]"

text \<open>
  A workspace \<^verbatim>\<open>./d\<close> holding two temporary files, a directory whose name ends in
  \<^verbatim>\<open>.tmp\<close>, another file and one of the scenario files.
\<close>

definition mixed_workspace :: world where
  "mixed_workspace =
     world_of [(''.'', dir_node), (''./d'', dir_node), (''./d/a.tmp'', file_node [7]),
       (''./d/old.tmp'', dir_node), (''./d/keep.txt'', file_node []),
       (''./d/b.tmp'', file_node []), (''./d/data.json'', file_node [1])]"

text \<open>A workspace whose second temporary file cannot be removed (an I/O error).\<close>

definition faulty_workspace :: world where
  "faulty_workspace =
     world_of [(''.'', dir_node), (''./d'', dir_node), (''./d/a.tmp'', file_node [7]),
       (''./d/b.tmp'', (file_node [])\<lparr>fault := Some IOError\<rparr>), (''./d/c.tmp'', file_node []),
       (''./d/data.json'', file_node [1])]"

definition empty_workspace :: "string \<Rightarrow> world" where
  "empty_workspace dir = world_of [(''.'', dir_node), (dir, dir_node)]"

section \<open>Properties\<close>

text \<open>
  C5. The size buckets are a constant list: its byte counts start at 1024 (1 KiB),
  end at 4194304 (4 MiB), contain no duplicate and increase strictly along the list.
\<close>

theorem SIZES_fixed_strictly_increasing:
  "bsize (hd SIZES) = 1024 \<and> bsize (last SIZES) = 4194304 \<and>
   distinct (map bsize SIZES) \<and> sorted_wrt (<) (map bsize SIZES) \<and>
   map bsize SIZES = [1024, 4096, 16384, 65536, 262144, 1048576, 4194304]"
  by (simp add: SIZES_def)

subsection \<open>Decimal rendering\<close>

lemma digit_char_cases:
  assumes "d < 10"
  shows "d = 0 \<or> d = 1 \<or> d = 2 \<or> d = 3 \<or> d = 4 \<or> d = 5 \<or> d = 6 \<or> d = 7 \<or> d = 8 \<or> d = (9::nat)"
  using assms by arith

lemma of_char_digit_char: "d < 10 \<Longrightarrow> of_char (digit_char d) = 48 + d"
  using digit_char_cases [of d] by (auto simp: digit_char_def)

lemma digit_char_in: "d < 10 \<Longrightarrow> digit_char d \<in> set ''0123456789''"
  using digit_char_cases [of d] by (auto simp: digit_char_def)

lemma show_nat_chars: "set (show_nat n) \<subseteq> set ''0123456789''"
proof (induction n rule: show_nat.induct)
  case (1 n)
  show ?case
  proof (cases "n < 10")
    case True
    then show ?thesis using digit_char_in [of n] by (simp add: show_nat.simps [of n])
  next
    case False
    with 1 show ?thesis using digit_char_in [of "n mod 10"] by (simp add: show_nat.simps [of n])
  qed
qed

lemma show_nat_no_dot: "CHR ''.'' \<notin> set (show_nat n)"
  using show_nat_chars [of n] by auto

lemma show_nat_no_slash: "CHR ''/'' \<notin> set (show_nat n)"
  using show_nat_chars [of n] by auto

lemma show_nat_not_Nil: "show_nat n \<noteq> []"
  by (simp add: show_nat.simps [of n])

lemma show_nat_digits: "list_all is_digit (utf16 (show_nat n))"
proof -
  have "\<forall>c\<in>set ''0123456789''. is_digit (of_char c)"
    by (simp add: is_digit_def)
  then show ?thesis
    using show_nat_chars [of n] by (auto simp: utf16_def list_all_iff)
qed

lemma decimal_val_snoc: "decimal_val (ds @ [c]) = decimal_val ds * 10 + digit_val c"
  by (simp add: decimal_val_def)

lemma decimal_val_show_nat: "decimal_val (utf16 (show_nat n)) = n"
proof (induction n rule: show_nat.induct)
  case (1 n)
  show ?case
  proof (cases "n < 10")
    case True
    then show ?thesis
      by (simp add: show_nat.simps [of n] utf16_def decimal_val_def digit_val_def of_char_digit_char)
  next
    case False
    with 1 have "decimal_val (utf16 (show_nat (n div 10))) = n div 10" by simp
    with False show ?thesis
      using decimal_val_snoc [of "utf16 (show_nat (n div 10))" "of_char (digit_char (n mod 10))"]
      by (simp add: show_nat.simps [of n] utf16_def digit_val_def of_char_digit_char)
  qed
qed

lemma show_nat_inj: "show_nat m = show_nat n \<Longrightarrow> m = n"
  by (metis decimal_val_show_nat)

subsection \<open>Splitting\<close>

lemma split_no_sep: "c \<notin> set xs \<Longrightarrow> split c xs = [xs]"
  by (induction xs) auto

lemma split_at_first: "c \<notin> set xs \<Longrightarrow> split c (xs @ c # ys) = xs # split c ys"
  by (induction xs) auto

lemma split_not_Nil: "split c xs \<noteq> []"
  by (induction xs) (auto split: list.splits)

subsection \<open>Rounding to a double\<close>

lemma bit_length_bounds: "0 < n \<Longrightarrow> 2 ^ (bit_length n - 1) \<le> n \<and> n < 2 ^ bit_length n"
proof (induction n rule: bit_length.induct)
  case (1 n)
  show ?case
  proof (cases "n div 2 = 0")
    case True
    with 1(2) have "n = 1" by arith
    then show ?thesis by (simp add: bit_length.simps [of "Suc 0"] bit_length.simps [of 0])
  next
    case False
    with 1 have ih: "2 ^ (bit_length (n div 2) - 1) \<le> n div 2" "n div 2 < 2 ^ bit_length (n div 2)"
      by simp_all
    have pos: "0 < bit_length (n div 2)"
      using False by (simp add: bit_length.simps [of "n div 2"])
    have b: "bit_length n = Suc (bit_length (n div 2))"
      using 1(2) by (simp add: bit_length.simps [of n])
    have "(2::nat) ^ bit_length (n div 2) = 2 * 2 ^ (bit_length (n div 2) - 1)"
      using pos by (cases "bit_length (n div 2)") simp_all
    with ih(1) have "(2::nat) ^ bit_length (n div 2) \<le> 2 * (n div 2)" by simp
    then have lo: "(2::nat) ^ bit_length (n div 2) \<le> n" by arith
    have "n < 2 * 2 ^ bit_length (n div 2)" using ih(2) by arith
    with lo show ?thesis by (simp add: b)
  qed
qed

lemma bit_length_pos: "0 < n \<Longrightarrow> 0 < bit_length n"
  by (simp add: bit_length.simps [of n])

lemma round_half_even_of_int: "round_half_even (of_int m) = m"
  by (simp add: round_half_even_def)

lemma round_half_even_ge_floor: "\<lfloor>y\<rfloor> \<le> round_half_even y"
  by (simp add: round_half_even_def Let_def)

lemma binary_exponent_of_nat: "0 < n \<Longrightarrow> binary_exponent (of_nat n) = int (bit_length n) - 1"
  by (simp add: binary_exponent_def)

text \<open>A natural number below \<open>2 ^ 53\<close> is a double.\<close>

lemma to_double_small:
  assumes "n < 2 ^ 53"
  shows "to_double (of_nat n) = Fin (of_nat n)"
proof (cases "n = 0")
  case True
  then show ?thesis by (simp add: to_double_def)
next
  case False
  then have pos: "0 < n" by simp
  define k where "k = bit_length n - 1"
  have bl: "int (bit_length n) - 1 = int k"
    using bit_length_pos [OF pos] by (simp add: k_def)
  have "2 ^ k \<le> n" using bit_length_bounds [OF pos] by (simp add: k_def)
  with assms have lt: "(2::nat) ^ k < 2 ^ 53" by simp
  have "k < 53" by (rule power_less_imp_less_exp [OF _ lt]) simp
  then have k: "k \<le> 52" by simp
  have q: "pow2 (int k - 52) = 1 / 2 ^ (52 - k)"
    using k by (cases "k = 52") (simp_all add: pow2_def nat_diff_distrib')
  have "rat_of_nat n / (1 / 2 ^ (52 - k)) = of_int (int (n * 2 ^ (52 - k)))"
    by simp
  then have r: "round_half_even (rat_of_nat n / (1 / 2 ^ (52 - k))) = int (n * 2 ^ (52 - k))"
    by (simp only: round_half_even_of_int)
  have v: "of_int (int (n * 2 ^ (52 - k))) * (1 / 2 ^ (52 - k)) = rat_of_nat n"
    by simp
  have "rat_of_nat n < 2 ^ 53"
    using assms by (metis of_nat_less_iff of_nat_numeral of_nat_power)
  also have "(2::rat) ^ 53 \<le> 2 ^ 1024" by (rule power_increasing) simp_all
  finally have small: "\<not> pow2 1024 \<le> rat_of_nat n" by (simp add: pow2_def)
  have e: "max (binary_exponent (rat_of_nat n)) (- 1022) = int k"
    using binary_exponent_of_nat [OF pos] bl by simp
  show ?thesis
    unfolding to_double_def Let_def using pos small
    by (simp only: abs_of_nat e q r v) simp
qed

text \<open>A natural number from \<open>2 ^ 53\<close> on rounds to a double no less than \<open>2 ^ 53\<close> or to infinity.\<close>

lemma to_double_large:
  assumes "2 ^ 53 \<le> n"
  shows "to_double (of_nat n) = PosInf \<or> (\<exists>v. to_double (of_nat n) = Fin v \<and> 2 ^ 53 \<le> v)"
proof -
  have pos: "0 < n" using assms by (cases "n = 0") simp_all
  define k where "k = bit_length n - 1"
  have bl: "int (bit_length n) - 1 = int k"
    using bit_length_pos [OF pos] by (simp add: k_def)
  have lo: "2 ^ k \<le> n" and hi: "n < 2 ^ Suc k"
    using bit_length_bounds [OF pos] bit_length_pos [OF pos] by (simp_all add: k_def)
  from assms hi have lt: "(2::nat) ^ 53 < 2 ^ Suc k" by simp
  have "53 < Suc k" by (rule power_less_imp_less_exp [OF _ lt]) simp
  then have k: "53 \<le> k" by simp
  have q: "pow2 (int k - 52) = 2 ^ (k - 52)"
    using k by (simp add: pow2_def nat_diff_distrib')
  define y where "y = rat_of_nat n / 2 ^ (k - 52)"
  have "k = 52 + (k - 52)" using k by simp
  then have "(2::rat) ^ k = 2 ^ 52 * 2 ^ (k - 52)"
    by (metis power_add)
  moreover have "(2::rat) ^ k \<le> rat_of_nat n"
    using lo by (metis of_nat_le_iff of_nat_numeral of_nat_power)
  ultimately have "2 ^ 52 * 2 ^ (k - 52) \<le> rat_of_nat n" by simp
  then have "2 ^ 52 \<le> y"
    by (simp add: y_def pos_le_divide_eq)
  then have fl: "(2::int) ^ 52 \<le> \<lfloor>y\<rfloor>"
    by (simp add: le_floor_iff)
  have m: "2 ^ 52 \<le> round_half_even y"
    by (rule order_trans [OF fl round_half_even_ge_floor])
  define v where "v = rat_of_int (round_half_even y) * 2 ^ (k - 52)"
  have "(2::rat) ^ 52 \<le> rat_of_int (round_half_even y)"
    using m by (metis of_int_le_iff of_int_numeral of_int_power)
  moreover have "(2::rat) \<le> 2 ^ (k - 52)"
    using k self_le_power [of "2::rat" "k - 52"] by simp
  ultimately have "2 ^ 52 * 2 \<le> v"
    unfolding v_def by (intro mult_mono) simp_all
  then have big: "2 ^ 53 \<le> v" by simp
  have e: "max (binary_exponent (rat_of_nat n)) (- 1022) = int k"
    using binary_exponent_of_nat [OF pos] bl by simp
  have "to_double (of_nat n) = (if pow2 1024 \<le> v then PosInf else Fin v)"
    unfolding to_double_def Let_def using pos
    by (simp only: abs_of_nat e q y_def [symmetric] v_def [symmetric]) simp
  with big show ?thesis by auto
qed

lemma compare_to_double_nat:
  "js_gt (Some (to_double (of_nat n))) 5 = (5 < n)"
  "js_strict_eq (Some (to_double (of_nat n))) 5 = (n = 5)"
  "js_ge (Some (to_double (of_nat n))) 6 = (6 \<le> n)"
proof -
  have c: "js_gt (Some (to_double (of_nat n))) 5 = (5 < n) \<and>
           js_strict_eq (Some (to_double (of_nat n))) 5 = (n = 5) \<and>
           js_ge (Some (to_double (of_nat n))) 6 = (6 \<le> n)"
  proof (cases "n < 2 ^ 53")
    case True
    have "(5 < rat_of_nat n) = (5 < n)" "(rat_of_nat n = 5) = (n = 5)" "(6 \<le> rat_of_nat n) = (6 \<le> n)"
      by (metis of_nat_less_iff of_nat_numeral, metis of_nat_eq_iff of_nat_numeral,
          metis of_nat_le_iff of_nat_numeral)
    then show ?thesis by (simp add: to_double_small [OF True])
  next
    case False
    then have n: "2 ^ 53 \<le> n" by simp
    then have "5 < n" "n \<noteq> 5" "6 \<le> n" by simp_all
    moreover have "(5::rat) < 2 ^ 53" "(6::rat) \<le> 2 ^ 53" by simp_all
    ultimately show ?thesis
      using to_double_large [OF n] by auto
  qed
  from c show "js_gt (Some (to_double (of_nat n))) 5 = (5 < n)" by simp
  from c show "js_strict_eq (Some (to_double (of_nat n))) 5 = (n = 5)" by simp
  from c show "js_ge (Some (to_double (of_nat n))) 6 = (6 \<le> n)" by simp
qed

subsection \<open>\<^verbatim>\<open>Number\<close> on decimal digits\<close>

lemma is_digit_cases:
  "is_digit c \<Longrightarrow> c \<noteq> of_char CHR ''.'' \<and> c \<noteq> of_char CHR ''+'' \<and> c \<noteq> of_char CHR ''-''
     \<and> c \<noteq> of_char CHR ''x'' \<and> c \<noteq> of_char CHR ''X'' \<and> c \<noteq> of_char CHR ''o'' \<and> c \<noteq> of_char CHR ''O''
     \<and> c \<noteq> of_char CHR ''b'' \<and> c \<noteq> of_char CHR ''B'' \<and> c \<noteq> of_char CHR ''I'' \<and> \<not> is_space c"
  by (auto simp: is_digit_def is_space_def)

lemma trim_digits:
  assumes "ds \<noteq> []" "list_all is_digit ds"
  shows "trim ds = ds"
proof -
  have "\<not> is_space (hd ds)"
    using assms is_digit_cases by (cases ds) auto
  then have 1: "dropWhile is_space ds = ds"
    using assms(1) by (cases ds) auto
  have "hd (rev ds) \<in> set ds"
    using assms(1) by (simp add: hd_rev)
  then have "\<not> is_space (hd (rev ds))"
    using assms(2) is_digit_cases by (auto simp: list_all_iff)
  then have 2: "dropWhile is_space (rev ds) = rev ds"
    using assms(1) by (cases "rev ds") auto
  show ?thesis by (simp add: trim_def 1 2)
qed

lemma non_decimal_digits:
  assumes "list_all is_digit ds"
  shows "non_decimal ds = None"
proof (cases ds)
  case Nil
  then show ?thesis by (simp add: non_decimal_def)
next
  case (Cons z t)
  show ?thesis
  proof (cases t)
    case Nil
    with Cons show ?thesis by (simp add: non_decimal_def)
  next
    case (Cons r u)
    with assms \<open>ds = z # t\<close> have "is_digit r" by simp
    from is_digit_cases [OF this] show ?thesis
      by (simp add: non_decimal_def \<open>ds = z # t\<close> Cons)
  qed
qed

lemma unsigned_decimal_digits:
  assumes "ds \<noteq> []" "list_all is_digit ds"
  shows "unsigned_decimal ds = Some (of_nat (decimal_val ds))"
proof -
  have t: "takeWhile is_digit ds = ds" and d: "dropWhile is_digit ds = []"
    using assms(2) by (simp_all add: list_all_iff)
  show ?thesis
    unfolding unsigned_decimal_def t d using assms(1) by (simp add: decimal_val_def)
qed

lemma str_decimal_digits:
  assumes "ds \<noteq> []" "list_all is_digit ds"
  shows "str_decimal ds = to_double (of_nat (decimal_val ds))"
proof -
  obtain c u where ds: "ds = c # u" using assms(1) by (cases ds) auto
  with assms(2) have c: "is_digit c" by simp
  from is_digit_cases [OF c]
  have ne: "c \<noteq> of_char CHR ''-''" "c \<noteq> of_char CHR ''+''" "c \<noteq> of_char CHR ''I''"
    by simp_all
  have "(case ds of [] \<Rightarrow> (False, ds)
         | c # u \<Rightarrow> if c = of_char CHR ''-'' then (True, u)
                    else if c = of_char CHR ''+'' then (False, u) else (False, ds)) = (False, ds)"
    using ne by (simp add: ds)
  moreover have "ds \<noteq> utf16 ''Infinity''" using ne by (auto simp: ds utf16_def)
  ultimately show ?thesis
    unfolding str_decimal_def using unsigned_decimal_digits [OF assms] by simp
qed

lemma Number_show_nat: "Number (utf16 (show_nat n)) = to_double (of_nat n)"
proof -
  have ne: "utf16 (show_nat n) \<noteq> []" by (simp add: utf16_def show_nat_not_Nil)
  show ?thesis
    using ne
    by (simp add: Number_def trim_digits show_nat_digits non_decimal_digits
        str_decimal_digits decimal_val_show_nat)
qed

lemma utf16_no_dot: "of_char CHR ''.'' \<notin> set (utf16 (show_nat n))"
  using show_nat_digits [of n] is_digit_cases by (auto simp: list_all_iff)

lemma utf16_append: "utf16 (xs @ ys) = utf16 xs @ utf16 ys"
  by (simp add: utf16_def)

subsection \<open>Reading text\<close>

lemma utf8_decode_ascii: "list_all (\<lambda>b. b < 128) bs \<Longrightarrow> utf8_decode bs = bs"
  by (induction bs) simp_all

lemma utf16_encode_bmp: "list_all (\<lambda>c. c < 65536) cs \<Longrightarrow> utf16_encode cs = cs"
  by (induction cs) (simp_all add: utf16_encode_def)

lemma decode_ascii:
  assumes "list_all (\<lambda>b. b < 128) bs"
  shows "utf16_encode (utf8_decode bs) = bs"
proof -
  have "list_all (\<lambda>c. c < 65536) bs"
    using assms by (induction bs) simp_all
  then show ?thesis
    by (simp add: utf8_decode_ascii [OF assms] utf16_encode_bmp)
qed

lemma console_readTextFile: "console (snd (Deno_readTextFile p w)) = console w"
  by (simp add: Deno_readTextFile_def Deno_readFile_def bind_io_def return_io_def perform_def
      Let_def split: option.splits)

lemma readTextFile_osrelease_world:
  "fst (Deno_readTextFile ''/proc/sys/kernel/osrelease'' (osrelease_world bs))
     = Inr (utf16_encode (utf8_decode bs))"
  by (simp add: Deno_readTextFile_def Deno_readFile_def bind_io_def return_io_def perform_def
      osrelease_world_def world_of_def file_node_def)

subsection \<open>The environment probe\<close>

lemma supports_major_only:
  "supports_io_uring (utf16 (show_nat a)) = (5 < a)"
proof -
  have "split (of_char CHR ''.'') (utf16 (show_nat a)) = [utf16 (show_nat a)]"
    by (rule split_no_sep) (rule utf16_no_dot)
  then show ?thesis
    by (simp add: supports_io_uring_def element_def Number_show_nat compare_to_double_nat)
qed

lemma supports_major_then:
  "supports_io_uring (utf16 (show_nat a) @ of_char CHR ''.'' # rest) =
     (5 < a \<or> (a = 5 \<and> js_ge (Some (Number (hd (split (of_char CHR ''.'') rest)))) 6))"
proof -
  obtain p ps where r: "split (of_char CHR ''.'') rest = p # ps"
    using split_not_Nil [of "of_char CHR ''.''" rest]
    by (cases "split (of_char CHR ''.'') rest") auto
  have "split (of_char CHR ''.'') (utf16 (show_nat a) @ of_char CHR ''.'' # rest)
        = utf16 (show_nat a) # p # ps"
    using split_at_first [OF utf16_no_dot, of a rest] by (simp only: r)
  with r show ?thesis
    by (simp add: supports_io_uring_def element_def Number_show_nat compare_to_double_nat)
qed

lemma supports_major_minor:
  "supports_io_uring (utf16 (show_nat a @ ''.'' @ show_nat b)) = (5 < a \<or> (a = 5 \<and> 6 \<le> b))"
proof -
  have "split (of_char CHR ''.'') (utf16 (show_nat b)) = [utf16 (show_nat b)]"
    by (rule split_no_sep) (rule utf16_no_dot)
  moreover have "utf16 (show_nat a @ ''.'' @ show_nat b)
      = utf16 (show_nat a) @ of_char CHR ''.'' # utf16 (show_nat b)"
    by (simp add: utf16_def)
  ultimately show ?thesis
    using supports_major_then [of a "utf16 (show_nat b)"]
    by (simp add: Number_show_nat compare_to_double_nat)
qed

lemma supports_major_minor_rest:
  "supports_io_uring (utf16 (show_nat a @ ''.'' @ show_nat b @ ''.'') @ rest)
     = (5 < a \<or> (a = 5 \<and> 6 \<le> b))"
proof -
  have "split (of_char CHR ''.'') (utf16 (show_nat b) @ of_char CHR ''.'' # rest)
        = utf16 (show_nat b) # split (of_char CHR ''.'') rest"
    by (rule split_at_first) (rule utf16_no_dot)
  moreover have "utf16 (show_nat a @ ''.'' @ show_nat b @ ''.'') @ rest
      = utf16 (show_nat a) @ of_char CHR ''.'' # (utf16 (show_nat b) @ of_char CHR ''.'' # rest)"
    by (simp add: utf16_def)
  ultimately show ?thesis
    using supports_major_then [of a "utf16 (show_nat b) @ of_char CHR ''.'' # rest"]
    by (simp add: Number_show_nat compare_to_double_nat)
qed

lemma supports_NaN_major:
  "\<not> (Number (hd (split (of_char CHR ''.'') s)) = NaN \<and> supports_io_uring s)"
proof -
  obtain p ps where "split (of_char CHR ''.'') s = p # ps"
    using split_not_Nil [of "of_char CHR ''.''" s] by (cases "split (of_char CHR ''.'') s") auto
  then show ?thesis
    by (auto simp: supports_io_uring_def element_def)
qed

lemma kernel_probe_outcome:
  "fst (kernel_probe os w) = Inr () \<and>
   console (snd (kernel_probe os w)) = console w @
     (if os = ''linux''
      then (case fst (Deno_readTextFile ''/proc/sys/kernel/osrelease'' w) of
              Inl e \<Rightarrow> [KernelUnknown]
            | Inr s \<Rightarrow> [Kernel (trim s),
                        if supports_io_uring s then KernelSupports else KernelDoesNotSupport])
      else [])"
proof (cases "Deno_readTextFile ''/proc/sys/kernel/osrelease'' w")
  case (Pair r w')
  then have "console w' = console w"
    using console_readTextFile [of "''/proc/sys/kernel/osrelease''" w] by simp
  with Pair show ?thesis
    by (cases r)
      (simp_all add: kernel_probe_def try_catch_def bind_io_def then_io_def console_log_def
        return_io_def)
qed

lemma Number_abc: "Number (utf16 ''abc'') = NaN"
  by (simp add: Number_def utf16_def trim_def is_space_def non_decimal_def
      str_decimal_def unsigned_decimal_def is_digit_def)

lemma not_supports_abc: "\<not> supports_io_uring (utf16 ''abc'')"
  using Number_abc by (simp add: supports_io_uring_def element_def utf16_def)

subsection \<open>Examples of rounding and of white space\<close>

lemma Number_cong: "trim s = trim t \<Longrightarrow> Number s = Number t"
  by (simp add: Number_def)

lemma Number_nbsp: "Number [160, 54, 65279] = Fin 6"
proof -
  have "utf16 (show_nat 6) = [54]"
    by (simp add: show_nat.simps utf16_def digit_char_def)
  then have "trim [160, 54, 65279] = trim (utf16 (show_nat 6))"
    by (simp add: trim_def is_space_def)
  then have "Number [160, 54, 65279] = Number (utf16 (show_nat 6))"
    by (rule Number_cong)
  then show ?thesis
    using to_double_small [of 6] by (simp add: Number_show_nat)
qed

lemma round_half_even_up:
  "of_int f + 1 / 2 < y \<Longrightarrow> y < of_int f + 1 \<Longrightarrow> round_half_even y = f + 1"
proof -
  assume a: "of_int f + 1 / 2 < y" "y < of_int f + 1"
  then have "\<lfloor>y\<rfloor> = f" by (intro floor_unique) simp_all
  with a show ?thesis by (simp add: round_half_even_def Let_def)
qed

lemma round_half_even_down:
  "of_int f \<le> y \<Longrightarrow> y < of_int f + 1 / 2 \<Longrightarrow> round_half_even y = f"
proof -
  assume a: "of_int f \<le> y" "y < of_int f + 1 / 2"
  then have "\<lfloor>y\<rfloor> = f" by (intro floor_unique) simp_all
  with a show ?thesis by (simp add: round_half_even_def Let_def)
qed

lemma to_double_eqI:
  assumes "0 < x" "binary_exponent x = e" "- 1022 \<le> e"
    "round_half_even (x / pow2 (e - 52)) = m" "v = of_int m * pow2 (e - 52)" "v < pow2 1024"
  shows "to_double x = Fin v"
proof -
  have e: "max (binary_exponent x) (- 1022) = e" using assms(2,3) by simp
  have a: "\<bar>x\<bar> = x" using assms(1) by simp
  have nz: "x \<noteq> 0" "\<not> x < 0" using assms(1) by simp_all
  show ?thesis
    unfolding to_double_def Let_def a e assms(4) using nz assms(5,6) by simp
qed

lemma bit_length_4: "bit_length 4 = 3"
  by (simp add: bit_length.simps [of 4] bit_length.simps [of 2] bit_length.simps [of 1]
      bit_length.simps [of "Suc 0"] bit_length.simps [of 0])

lemma to_double_ex: "to_double (49999999999999999999 / 10000000000000000000) = Fin 5"
proof (rule to_double_eqI [where e = 2 and m = 5629499534213120])
  show "(0::rat) < 49999999999999999999 / 10000000000000000000" by simp
  have "\<lfloor>49999999999999999999 / 10000000000000000000 :: rat\<rfloor> = 4"
    by (rule floor_unique) simp_all
  then show "binary_exponent (49999999999999999999 / 10000000000000000000) = 2"
    by (simp add: binary_exponent_def bit_length_4)
  show "- 1022 \<le> (2::int)" by simp
  have "round_half_even (49999999999999999999 / 10000000000000000000 / pow2 (2 - 52))
      = 5629499534213119 + 1"
    by (rule round_half_even_up) (simp_all add: pow2_def)
  then show "round_half_even (49999999999999999999 / 10000000000000000000 / pow2 (2 - 52))
      = 5629499534213120" by simp
  show "5 = rat_of_int 5629499534213120 * pow2 (2 - 52)" by (simp add: pow2_def)
  show "5 < pow2 1024" by (simp add: pow2_def)
qed

lemma unsigned_ex:
  "unsigned_decimal (utf16 ''49999999999999999999e-19'')
     = Some (49999999999999999999 / 10000000000000000000)"
  by (simp add: unsigned_decimal_def utf16_def is_digit_def decimal_val_def digit_val_def
      signed_integer_def Let_def)

lemma Number_ex: "Number (utf16 ''49999999999999999999e-19'') = Fin 5"
proof -
  have t: "trim (utf16 ''49999999999999999999e-19'') = utf16 ''49999999999999999999e-19''"
    by (simp add: trim_def utf16_def is_space_def)
  have n: "non_decimal (utf16 ''49999999999999999999e-19'') = None"
    by (simp add: non_decimal_def utf16_def)
  have s: "str_decimal (utf16 ''49999999999999999999e-19'')
       = to_double (49999999999999999999 / 10000000000000000000)"
    using unsigned_ex by (simp add: str_decimal_def utf16_def)
  have ne: "utf16 ''49999999999999999999e-19'' \<noteq> []" by (simp add: utf16_def)
  show ?thesis
    unfolding Number_def Let_def t n s to_double_ex using ne by simp
qed

lemma show_nat_examples:
  "utf16 (show_nat 5) = [53]" "utf16 (show_nat 6) = [54]" "utf16 (show_nat (Suc 0)) = [49]"
  "utf16 (show_nat 18) = [49, 56]"
  by (simp_all add: show_nat.simps utf16_def digit_char_def)

lemma Number_6: "Number [54] = Fin 6"
  using Number_show_nat [of 6] to_double_small [of 6] by (simp add: show_nat_examples)

lemma Number_1: "Number [49] = Fin 1"
  using Number_show_nat [of 1] to_double_small [of 1] by (simp add: show_nat_examples)

lemma Number_nbsp_6: "Number [160, 54] = Fin 6"
proof -
  have "trim [160, 54] = trim [54]"
    by (simp add: trim_def is_space_def)
  then have "Number [160, 54] = Number [54]"
    by (rule Number_cong)
  then show ?thesis by (simp add: Number_6)
qed

text \<open>
  \<^verbatim>\<open>49999999999999999999e-19\<close> is not 5 but rounds to the double 5, so the version
  \<^verbatim>\<open>49999999999999999999e-19.6\<close> has major 5 and minor 6.
\<close>

lemma supports_rounded_major: "supports_io_uring (utf16 ''49999999999999999999e-19.6'')"
proof -
  have "split (of_char CHR ''.'') (utf16 ''49999999999999999999e-19.6'')
        = [utf16 ''49999999999999999999e-19'', [54]]"
    by (simp add: utf16_def)
  then show ?thesis
    by (simp add: supports_io_uring_def element_def Number_ex Number_6)
qed

text \<open>A no-break space before the major, as the bytes \<^verbatim>\<open>C2 A0\<close> of the file, is stripped.\<close>

lemma supports_nbsp_major: "supports_io_uring [160, 54, 46, 49]"
proof -
  have "split (of_char CHR ''.'') [160, 54, 46, 49 :: nat] = [[160, 54], [49]]"
    by simp
  then show ?thesis
    by (simp add: supports_io_uring_def element_def Number_nbsp_6 Number_1)
qed

lemma decode_nbsp: "utf16_encode (utf8_decode [194, 160, 54, 46, 49]) = [160, 54, 46, 49]"
  by (simp add: utf16_encode_def continuation_def)

text \<open>
  C1 (as amended). The probe never throws. On Linux it prints \<open>KernelUnknown\<close> exactly
  when reading the version file throws; when the read gives a string \<open>s\<close> it prints the
  trimmed string and then reports support exactly when \<open>major > 5\<close>, or \<open>major === 5\<close>
  and \<open>minor >= 6\<close>, where major and minor are \<open>Number\<close> of the first two dot-separated
  components of \<open>s\<close> (undefined when there is no such component). For a version \<open>a.b\<close>
  or \<open>a.b.rest\<close> with decimal \<open>a\<close> and \<open>b\<close> that is \<open>a > 5 \<or> a = 5 \<and> b \<ge> 6\<close>. A
  malformed string is not reported as unknown: a string whose major is not a number is
  reported as not supporting io_uring; a string \<open>a\<close> with decimal \<open>a\<close> and nothing else is
  reported as supporting exactly when \<open>a > 5\<close>; and a string \<open>a.rest\<close> with decimal \<open>a\<close>
  is reported as supporting when \<open>a > 5\<close> whatever \<open>rest\<close> is, as not supporting when
  \<open>a < 5\<close>, and for \<open>a = 5\<close> exactly when \<open>Number\<close> of the component after the first dot
  is at least 6.
\<close>

theorem kernel_probe_report:
  "fst (kernel_probe os w) = Inr () \<and>
   console (snd (kernel_probe os w)) = console w @
     (if os = ''linux''
      then (case fst (Deno_readTextFile ''/proc/sys/kernel/osrelease'' w) of
              Inl e \<Rightarrow> [KernelUnknown]
            | Inr s \<Rightarrow> [Kernel (trim s),
                        if supports_io_uring s then KernelSupports else KernelDoesNotSupport])
      else []) \<and>
   supports_io_uring v =
     (js_gt (element (map Number (split (of_char CHR ''.'') v)) 0) 5 \<or>
      (js_strict_eq (element (map Number (split (of_char CHR ''.'') v)) 0) 5 \<and>
       js_ge (element (map Number (split (of_char CHR ''.'') v)) 1) 6)) \<and>
   supports_io_uring (utf16 (show_nat a @ ''.'' @ show_nat b)) = (a > 5 \<or> (a = 5 \<and> b \<ge> 6)) \<and>
   supports_io_uring (utf16 (show_nat a @ ''.'' @ show_nat b @ ''.'') @ rest)
     = (a > 5 \<or> (a = 5 \<and> b \<ge> 6)) \<and>
   \<not> (Number (hd (split (of_char CHR ''.'') v)) = NaN \<and> supports_io_uring v) \<and>
   supports_io_uring (utf16 (show_nat a)) = (a > 5) \<and>
   supports_io_uring (utf16 (show_nat a) @ of_char CHR ''.'' # rest) =
     (a > 5 \<or> (a = 5 \<and> js_ge (Some (Number (hd (split (of_char CHR ''.'') rest)))) 6))"
proof -
  have "supports_io_uring v =
     (js_gt (element (map Number (split (of_char CHR ''.'') v)) 0) 5 \<or>
      (js_strict_eq (element (map Number (split (of_char CHR ''.'') v)) 0) 5 \<and>
       js_ge (element (map Number (split (of_char CHR ''.'') v)) 1) 6))"
    by (simp add: supports_io_uring_def Let_def)
  then show ?thesis
    using kernel_probe_outcome [of os w] supports_major_minor [of a b]
      supports_major_minor_rest [of a b rest] supports_NaN_major [of v]
      supports_major_only [of a] supports_major_then [of a rest]
    by blast
qed

text \<open>
  The probe on five version files: \<^verbatim>\<open>6.18.44-fc-v230\<close>, \<^verbatim>\<open>6.abc\<close>, \<^verbatim>\<open>5.abc\<close>,
  \<^verbatim>\<open>49999999999999999999e-19.6\<close>, and the bytes \<^verbatim>\<open>C2 A0\<close> (a no-break space) followed
  by \<^verbatim>\<open>6.1\<close>.
\<close>

theorem kernel_probe_report_witness:
  "console (snd (kernel_probe ''linux'' (osrelease_world (map of_char ''6.18.44-fc-v230''))))
     = [Kernel (utf16 ''6.18.44-fc-v230''), KernelSupports] \<and>
   console (snd (kernel_probe ''linux'' (osrelease_world (map of_char ''6.abc''))))
     = [Kernel (utf16 ''6.abc''), KernelSupports] \<and>
   console (snd (kernel_probe ''linux'' (osrelease_world (map of_char ''5.abc''))))
     = [Kernel (utf16 ''5.abc''), KernelDoesNotSupport] \<and>
   console (snd (kernel_probe ''linux''
       (osrelease_world (map of_char ''49999999999999999999e-19.6''))))
     = [Kernel (utf16 ''49999999999999999999e-19.6''), KernelSupports] \<and>
   console (snd (kernel_probe ''linux'' (osrelease_world [194, 160, 54, 46, 49])))
     = [Kernel (utf16 ''6.1''), KernelSupports]"
proof -
  have c: "console (osrelease_world bs) = []" for bs
    by (simp add: osrelease_world_def world_of_def)
  have r: "console (snd (kernel_probe ''linux'' (osrelease_world bs)))
      = [Kernel (trim (utf16_encode (utf8_decode bs))),
         if supports_io_uring (utf16_encode (utf8_decode bs))
         then KernelSupports else KernelDoesNotSupport]" for bs
    using kernel_probe_report [of "''linux''" "osrelease_world bs" "[]" 0 0 "[]"]
    by (simp add: readTextFile_osrelease_world c)
  have d: "utf16_encode (utf8_decode (map of_char ''6.18.44-fc-v230'')) = utf16 ''6.18.44-fc-v230''"
    "utf16_encode (utf8_decode (map of_char ''6.abc'')) = utf16 ''6.abc''"
    "utf16_encode (utf8_decode (map of_char ''5.abc'')) = utf16 ''5.abc''"
    "utf16_encode (utf8_decode (map of_char ''49999999999999999999e-19.6''))
       = utf16 ''49999999999999999999e-19.6''"
    by (simp_all add: utf16_encode_def utf16_def)
  have 1: "supports_io_uring (utf16 ''6.18.44-fc-v230'')"
    using kernel_probe_report [of "''linux''" "osrelease_world []" "[]" 6 18 "utf16 ''44-fc-v230''"]
    by (simp add: utf16_def show_nat_examples [unfolded utf16_def] show_nat.simps digit_char_def)
  have 2: "supports_io_uring (utf16 ''6.abc'')"
    using kernel_probe_report [of "''linux''" "osrelease_world []" "[]" 6 0 "utf16 ''abc''"]
    by (simp add: utf16_def show_nat.simps digit_char_def)
  have 3: "\<not> supports_io_uring (utf16 ''5.abc'')"
    using kernel_probe_report [of "''linux''" "osrelease_world []" "[]" 5 0 "utf16 ''abc''"]
      Number_abc
    by (simp add: utf16_def show_nat.simps digit_char_def)
  have t: "trim (utf16 ''6.18.44-fc-v230'') = utf16 ''6.18.44-fc-v230''"
    "trim (utf16 ''6.abc'') = utf16 ''6.abc''" "trim (utf16 ''5.abc'') = utf16 ''5.abc''"
    "trim (utf16 ''49999999999999999999e-19.6'') = utf16 ''49999999999999999999e-19.6''"
    "trim [160, 54, 46, 49] = utf16 ''6.1''"
    by (simp_all add: trim_def is_space_def utf16_def)
  show ?thesis
    unfolding r d decode_nbsp t
    using 1 2 3 supports_rounded_major supports_nbsp_major by simp
qed

text \<open>
  C1 as stated fails on the malformed version string \<^verbatim>\<open>abc\<close>: its major is NaN,
  and the probe reports that the kernel does not support io_uring, not "unknown".
\<close>

theorem malformed_version_counterexample:
  "Number (utf16 ''abc'') = NaN \<and>
   console (snd (kernel_probe ''linux'' (osrelease_world (map of_char ''abc''))))
     = [Kernel (utf16 ''abc''), KernelDoesNotSupport]"
proof -
  have "console (osrelease_world (map of_char ''abc'')) = []"
    by (simp add: osrelease_world_def world_of_def)
  moreover have "trim (utf16 ''abc'') = utf16 ''abc''"
    by (simp add: trim_def is_space_def utf16_def)
  moreover have "utf16_encode (utf8_decode (map of_char ''abc'')) = utf16 ''abc''"
    by (simp add: utf16_encode_def utf16_def)
  ultimately show ?thesis
    using kernel_probe_outcome [of "''linux''" "osrelease_world (map of_char ''abc'')"]
    by (simp add: readTextFile_osrelease_world not_supports_abc Number_abc)
qed

subsection \<open>Sequencing\<close>

lemma return_io_apply: "return_io x w = (Inr x, w)"
  by (simp add: return_io_def)

lemma bind_io_Inr: "m w = (Inr x, w') \<Longrightarrow> bind_io m f w = f x w'"
  by (simp add: bind_io_def)

lemma bind_io_Inl: "m w = (Inl e, w') \<Longrightarrow> bind_io m f w = (Inl e, w')"
  by (simp add: bind_io_def)

lemma then_io_Inr: "m w = (Inr x, w') \<Longrightarrow> then_io m k w = k w'"
  by (simp add: then_io_def bind_io_def)

lemma then_io_Inl: "m w = (Inl e, w') \<Longrightarrow> then_io m k w = (Inl e, w')"
  by (simp add: then_io_def bind_io_def)

lemma try_catch_Inr: "m w = (Inr x, w') \<Longrightarrow> try_catch m h w = (Inr x, w')"
  by (simp add: try_catch_def)

lemma try_catch_Inl: "m w = (Inl e, w') \<Longrightarrow> try_catch m h w = h w'"
  by (simp add: try_catch_def)

lemma for_each_Nil: "for_each [] body w = (Inr (), w)"
  by (simp add: return_io_def)

lemma for_each_Cons: "for_each (x # xs) body w = then_io (body x) (for_each xs body) w"
  by (simp add: then_io_def)

lemma for_each_append:
  "for_each (xs @ ys) body w = then_io (for_each xs body) (for_each ys body) w"
proof (induction xs arbitrary: w)
  case Nil
  show ?case by (simp add: then_io_def bind_io_def return_io_def)
next
  case (Cons x xs)
  show ?case
  proof (cases "body x w")
    case (Pair r w')
    then show ?thesis
      using Cons [of w'] by (cases r) (simp_all add: then_io_def bind_io_def)
  qed
qed

subsection \<open>The clock and the record of operations\<close>

lemma perform_fields:
  "nodes (perform op w) = nodes w"
  "latency (perform op w) = latency w"
  "console (perform op w) = console w"
  "performed (perform op w) = performed w @ [op]"
  "now (perform op w) = now w + latency w op"
  by (simp_all add: perform_def)

lemma perform_all_Nil: "perform_all [] w = w"
  by (simp add: perform_all_def)

lemma perform_all_Cons: "perform_all (op # ops) w = perform_all ops (perform op w)"
  by (simp add: perform_all_def)

lemma perform_all_append: "perform_all (xs @ ys) w = perform_all ys (perform_all xs w)"
  by (simp add: perform_all_def)

lemma perform_all_fields:
  "nodes (perform_all ops w) = nodes w"
  "latency (perform_all ops w) = latency w"
  "console (perform_all ops w) = console w"
  "performed (perform_all ops w) = performed w @ ops"
  "now (perform_all ops w) = now w + sum_list (map (latency w) ops)"
  by (induction ops arbitrary: w) (simp_all add: perform_all_Nil perform_all_Cons perform_fields)

lemma perform_nodes_update: "perform op (w\<lparr>nodes := ns\<rparr>) = (perform op w)\<lparr>nodes := ns\<rparr>"
  by (simp add: perform_def)

lemma perform_all_nodes_update:
  "perform_all ops (w\<lparr>nodes := ns\<rparr>) = (perform_all ops w)\<lparr>nodes := ns\<rparr>"
  by (induction ops arbitrary: w) (simp_all add: perform_all_Nil perform_all_Cons perform_nodes_update)

subsection \<open>Paths\<close>

lemma takeWhile_upto: "c \<notin> set xs \<Longrightarrow> takeWhile (\<lambda>x. x \<noteq> c) (xs @ c # ys) = xs"
  by (induction xs) auto

lemma dropWhile_upto: "c \<notin> set xs \<Longrightarrow> dropWhile (\<lambda>x. x \<noteq> c) (xs @ c # ys) = c # ys"
  by (induction xs) auto

lemma basename_child: "CHR ''/'' \<notin> set nm \<Longrightarrow> basename (dir @ CHR ''/'' # nm) = nm"
  using takeWhile_upto [of "CHR ''/''" "rev nm" "rev dir"] by (simp add: basename_def)

lemma dirname_child: "CHR ''/'' \<notin> set nm \<Longrightarrow> dirname (dir @ CHR ''/'' # nm) = dir"
  using dropWhile_upto [of "CHR ''/''" "rev nm" "rev dir"] by (simp add: dirname_def)

lemma is_child_path: "nm \<noteq> [] \<Longrightarrow> CHR ''/'' \<notin> set nm \<Longrightarrow> is_child dir (dir @ CHR ''/'' # nm)"
  using basename_child [of nm dir] by (simp add: is_child_def)

lemma is_child_basename: "is_child dir p \<Longrightarrow> dir @ CHR ''/'' # basename p = p"
  by (simp add: is_child_def)

subsection \<open>The table of nodes\<close>

lemma map_of_filter_notin:
  "map_of (filter (\<lambda>x. fst x \<notin> S) xs) q = (if q \<in> S then None else map_of xs q)"
  by (induction xs) auto

lemma map_of_filter_neq:
  "map_of (filter (\<lambda>x. fst x \<noteq> p) xs) q = (if q = p then None else map_of xs q)"
  by (induction xs) auto

lemma filter_filter_paths:
  "filter (\<lambda>x. fst x \<notin> S) (filter (\<lambda>x. fst x \<noteq> p) xs) = filter (\<lambda>x. fst x \<notin> insert p S) xs"
  by (induction xs) auto

subsection \<open>Removing\<close>

lemma Deno_remove_ok:
  assumes "map_of (nodes w) p = Some n" "fault n = None" "kind n \<noteq> Directory"
  shows "Deno_remove p w =
    (Inr (), (perform (Remove p) w)\<lparr>nodes := filter (\<lambda>x. fst x \<noteq> p) (nodes w)\<rparr>)"
  using assms by (simp add: Deno_remove_def perform_fields Let_def case_prod_unfold)

lemma Deno_remove_absent:
  assumes "map_of (nodes w) p = None"
  shows "Deno_remove p w = (Inl (FsError NotFound), perform (Remove p) w)"
  using assms by (simp add: Deno_remove_def perform_fields Let_def)

lemma Deno_remove_fault:
  assumes "map_of (nodes w) p = Some n" "fault n = Some e"
  shows "Deno_remove p w = (Inl (FsError e), perform (Remove p) w)"
  using assms by (simp add: Deno_remove_def perform_fields Let_def)

lemma Deno_remove_Inl:
  "fst (Deno_remove p w) = Inl e \<Longrightarrow> Deno_remove p w = (Inl e, perform (Remove p) w)"
  by (auto simp: Deno_remove_def perform_fields Let_def split: option.splits if_splits)

lemma remove_all_ok:
  assumes "distinct ps"
    and "\<forall>p\<in>set ps. \<exists>n. map_of (nodes w) p = Some n \<and> fault n = None \<and> kind n \<noteq> Directory"
  shows "for_each ps Deno_remove w =
    (Inr (), (perform_all (map Remove ps) w)\<lparr>nodes := filter (\<lambda>x. fst x \<notin> set ps) (nodes w)\<rparr>)"
  using assms
proof (induction ps arbitrary: w)
  case Nil
  show ?case by (simp add: return_io_def perform_all_Nil)
next
  case (Cons p ps)
  from Cons.prems obtain n where n: "map_of (nodes w) p = Some n" "fault n = None" "kind n \<noteq> Directory"
    by auto
  let ?w = "(perform (Remove p) w)\<lparr>nodes := filter (\<lambda>x. fst x \<noteq> p) (nodes w)\<rparr>"
  have step: "Deno_remove p w = (Inr (), ?w)"
    by (rule Deno_remove_ok [OF n])
  have "distinct ps" using Cons.prems by simp
  moreover have "\<forall>q\<in>set ps. \<exists>n. map_of (nodes ?w) q = Some n \<and> fault n = None \<and> kind n \<noteq> Directory"
    using Cons.prems by (auto simp: map_of_filter_neq)
  ultimately have "for_each ps Deno_remove ?w =
    (Inr (), (perform_all (map Remove ps) ?w)\<lparr>nodes := filter (\<lambda>x. fst x \<notin> set ps) (nodes ?w)\<rparr>)"
    by (rule Cons.IH)
  then show ?case
    using step
    by (simp add: bind_io_def perform_all_Cons perform_all_nodes_update filter_filter_paths)
qed

subsection \<open>Listing\<close>

lemma Deno_readDir_Inr:
  "fst (Deno_readDir dir w) = Inr es \<Longrightarrow>
   Deno_readDir dir w =
     (Inr (map entry_of (filter (\<lambda>x. is_child dir (fst x)) (nodes w))), perform (ReadDir dir) w)"
  by (auto simp: Deno_readDir_def perform_fields Let_def case_prod_unfold
      split: option.splits if_splits)

lemma Deno_readDir_Inl:
  "fst (Deno_readDir dir w) = Inl e \<Longrightarrow> Deno_readDir dir w = (Inl e, perform (ReadDir dir) w)"
  by (auto simp: Deno_readDir_def perform_fields Let_def split: option.splits if_splits)

lemma Deno_readDir_nodes:
  "nodes v = nodes w \<Longrightarrow> fst (Deno_readDir dir v) = fst (Deno_readDir dir w)"
  by (simp add: Deno_readDir_def perform_fields Let_def split: option.splits)

subsection \<open>The two loops of cleanup\<close>

lemma bind_return_io: "bind_io (return_io x) f = f x"
  by (simp add: bind_io_def return_io_def fun_eq_iff)

lemma remove_if_tmp_entry_of:
  "is_child dir (fst x) \<Longrightarrow>
   remove_if_tmp dir (entry_of x) = (if tmp_file dir x then Deno_remove (fst x) else return_io ())"
  by (simp add: remove_if_tmp_def entry_of_def tmp_file_def is_child_basename)

lemma tmp_loop_removes:
  "\<forall>x\<in>set cs. is_child dir (fst x) \<Longrightarrow>
   for_each (map entry_of cs) (remove_if_tmp dir) =
   for_each (map fst (filter (tmp_file dir) cs)) Deno_remove"
  by (induction cs) (simp_all add: remove_if_tmp_entry_of bind_return_io)

lemma tmp_file_child: "(is_child dir (fst x) \<and> tmp_file dir x) = tmp_file dir x"
  by (auto simp: tmp_file_def)

lemma for_each_map: "for_each (map g xs) body = for_each xs (\<lambda>x. body (g x))"
  by (induction xs) simp_all

lemma Deno_remove_Inr:
  "fst (Deno_remove p w) = Inr u \<Longrightarrow>
   Deno_remove p w = (Inr (), (perform (Remove p) w)\<lparr>nodes := filter (\<lambda>x. fst x \<noteq> p) (nodes w)\<rparr>)"
  by (auto simp: Deno_remove_def perform_fields Let_def case_prod_unfold
      split: option.splits if_splits)

lemma tolerant_loop:
  "\<exists>R. R \<subseteq> set ps \<and>
     for_each ps (\<lambda>p. try_catch (Deno_remove p) (return_io ())) w =
       (Inr (), (perform_all (map Remove ps) w)\<lparr>nodes := filter (\<lambda>x. fst x \<notin> R) (nodes w)\<rparr>)"
proof (induction ps arbitrary: w)
  case Nil
  show ?case by (simp add: return_io_def perform_all_Nil)
next
  case (Cons p ps)
  show ?case
  proof (cases "fst (Deno_remove p w)")
    case (Inl e)
    let ?w = "perform (Remove p) w"
    from Deno_remove_Inl [OF Inl]
    have step: "try_catch (Deno_remove p) (return_io ()) w = (Inr (), ?w)"
      by (simp add: try_catch_def return_io_def)
    from Cons [of ?w] obtain R where R: "R \<subseteq> set ps"
      "for_each ps (\<lambda>p. try_catch (Deno_remove p) (return_io ())) ?w =
        (Inr (), (perform_all (map Remove ps) ?w)\<lparr>nodes := filter (\<lambda>x. fst x \<notin> R) (nodes ?w)\<rparr>)"
      by blast
    have "for_each (p # ps) (\<lambda>p. try_catch (Deno_remove p) (return_io ())) w =
       (Inr (), (perform_all (map Remove (p # ps)) w)\<lparr>nodes := filter (\<lambda>x. fst x \<notin> R) (nodes w)\<rparr>)"
      using step R(2) by (simp add: bind_io_def perform_all_Cons perform_fields)
    with R(1) show ?thesis by (intro exI [of _ R]) auto
  next
    case (Inr u)
    let ?w = "(perform (Remove p) w)\<lparr>nodes := filter (\<lambda>x. fst x \<noteq> p) (nodes w)\<rparr>"
    from Deno_remove_Inr [OF Inr]
    have step: "try_catch (Deno_remove p) (return_io ()) w = (Inr (), ?w)"
      by (simp add: try_catch_def)
    from Cons [of ?w] obtain R where R: "R \<subseteq> set ps"
      "for_each ps (\<lambda>p. try_catch (Deno_remove p) (return_io ())) ?w =
        (Inr (), (perform_all (map Remove ps) ?w)\<lparr>nodes := filter (\<lambda>x. fst x \<notin> R) (nodes ?w)\<rparr>)"
      by blast
    have "for_each (p # ps) (\<lambda>p. try_catch (Deno_remove p) (return_io ())) w =
       (Inr (), (perform_all (map Remove (p # ps)) w)\<lparr>nodes := filter (\<lambda>x. fst x \<notin> insert p R) (nodes w)\<rparr>)"
      using step R(2)
      by (simp add: bind_io_def perform_all_Cons perform_all_nodes_update filter_filter_paths)
    with R(1) show ?thesis by (intro exI [of _ "insert p R"]) auto
  qed
qed

lemma scenario_loop:
  "\<exists>R. R \<subseteq> set (scenario_paths dir) \<and>
     for_each scenario_names (\<lambda>n. try_catch (Deno_remove (dir @ ''/'' @ n)) (return_io ())) w =
       (Inr (), (perform_all (map Remove (scenario_paths dir)) w)\<lparr>nodes := filter (\<lambda>x. fst x \<notin> R) (nodes w)\<rparr>)"
  using tolerant_loop [of "scenario_paths dir" w]
  by (simp add: scenario_paths_def for_each_map)

subsection \<open>cleanup\<close>

lemma cleanup_never_throws: "fst (cleanup dir w) = Inr ()"
  by (simp add: cleanup_def try_catch_def return_io_def split: prod.splits sum.splits)

lemma cleanup_unlistable:
  "fst (Deno_readDir dir w) = Inl e \<Longrightarrow> cleanup dir w = (Inr (), perform (ReadDir dir) w)"
  using Deno_readDir_Inl [of dir w e]
  by (simp add: cleanup_def try_catch_def bind_io_def return_io_def)

text \<open>cleanup as its two loops, once the listing has succeeded.\<close>

lemma cleanup_listed:
  assumes "fst (Deno_readDir dir w) = Inr es"
  shows "cleanup dir w =
    try_catch
      (then_io (for_each (map fst (filter (tmp_file dir) (nodes w))) Deno_remove)
         (for_each scenario_names (\<lambda>n. try_catch (Deno_remove (dir @ ''/'' @ n)) (return_io ()))))
      (return_io ()) (perform (ReadDir dir) w)"
proof -
  have "for_each (map entry_of (filter (\<lambda>x. is_child dir (fst x)) (nodes w))) (remove_if_tmp dir)
        = for_each (map fst (filter (tmp_file dir) (nodes w))) Deno_remove"
    by (subst tmp_loop_removes) (simp_all add: tmp_file_child)
  then show ?thesis
    using Deno_readDir_Inr [OF assms]
    by (simp add: cleanup_def try_catch_def bind_io_def then_io_def)
qed

lemma tmp_paths_distinct:
  "distinct (map fst ns) \<Longrightarrow> distinct (map fst (filter (tmp_file dir) ns))"
  by (rule distinct_map_filter)

lemma tmp_paths_removable:
  assumes "distinct (map fst (nodes w))"
    and "\<forall>x\<in>set xs. x \<in> set (nodes w) \<and> tmp_file dir x \<and> fault (snd x) = None"
  shows "\<forall>p\<in>set (map fst xs). \<exists>n. map_of (nodes w) p = Some n \<and> fault n = None \<and> kind n \<noteq> Directory"
proof
  fix p assume "p \<in> set (map fst xs)"
  then obtain n where pn: "(p, n) \<in> set xs" by auto
  with assms(2) have "(p, n) \<in> set (nodes w)" "tmp_file dir (p, n)" "fault n = None" by auto
  with assms(1) show "\<exists>n. map_of (nodes w) p = Some n \<and> fault n = None \<and> kind n \<noteq> Directory"
    by (auto simp: tmp_file_def)
qed

lemma cleanup_listed_ok:
  assumes d: "distinct (map fst (nodes w))"
    and l: "fst (Deno_readDir dir w) = Inr es"
    and f: "\<forall>x\<in>set (nodes w). tmp_file dir x \<longrightarrow> fault (snd x) = None"
  shows "\<exists>R. R \<subseteq> set (scenario_paths dir) \<and>
    cleanup dir w =
      (Inr (),
       (perform_all (ReadDir dir # map Remove (map fst (filter (tmp_file dir) (nodes w)))
                      @ map Remove (scenario_paths dir)) w)
       \<lparr>nodes := filter (\<lambda>x. fst x \<notin> set (map fst (filter (tmp_file dir) (nodes w))) \<union> R) (nodes w)\<rparr>)"
proof -
  let ?ps = "map fst (filter (tmp_file dir) (nodes w))"
  let ?w1 = "perform (ReadDir dir) w"
  let ?w2 = "(perform_all (map Remove ?ps) ?w1)\<lparr>nodes := filter (\<lambda>x. fst x \<notin> set ?ps) (nodes ?w1)\<rparr>"
  have "distinct ?ps" using d by (rule tmp_paths_distinct)
  moreover have "\<forall>p\<in>set ?ps. \<exists>n. map_of (nodes ?w1) p = Some n \<and> fault n = None \<and> kind n \<noteq> Directory"
    using tmp_paths_removable [OF d, of "filter (tmp_file dir) (nodes w)" dir] f
    by (simp add: perform_fields)
  ultimately have loop1: "for_each ?ps Deno_remove ?w1 = (Inr (), ?w2)"
    by (rule remove_all_ok)
  from scenario_loop [of dir ?w2] obtain R where R: "R \<subseteq> set (scenario_paths dir)"
    and loop2: "for_each scenario_names (\<lambda>n. try_catch (Deno_remove (dir @ ''/'' @ n)) (return_io ())) ?w2 =
       (Inr (), (perform_all (map Remove (scenario_paths dir)) ?w2)\<lparr>nodes := filter (\<lambda>x. fst x \<notin> R) (nodes ?w2)\<rparr>)"
    by blast
  have "cleanup dir w =
      (Inr (), (perform_all (map Remove (scenario_paths dir)) ?w2)\<lparr>nodes := filter (\<lambda>x. fst x \<notin> R) (nodes ?w2)\<rparr>)"
    unfolding cleanup_listed [OF l]
    using loop1 loop2 by (simp add: try_catch_def then_io_def bind_io_def)
  also have "(perform_all (map Remove (scenario_paths dir)) ?w2)\<lparr>nodes := filter (\<lambda>x. fst x \<notin> R) (nodes ?w2)\<rparr>
     = (perform_all (ReadDir dir # map Remove ?ps @ map Remove (scenario_paths dir)) w)
       \<lparr>nodes := filter (\<lambda>x. fst x \<notin> set ?ps \<union> R) (nodes w)\<rparr>"
    by (simp add: perform_all_Cons perform_all_append perform_all_nodes_update perform_fields
        perform_all_fields conj_commute)
  finally show ?thesis using R by blast
qed

text \<open>
  C2 (as amended). In a table of distinct paths, cleanup never throws. When the directory
  cannot be listed it does nothing but the failed listing. When it can be listed and no
  regular file ending in \<^verbatim>\<open>.tmp\<close> is faulty, cleanup removes every such file of the
  directory (entries that are not regular files stay, whatever their name), then attempts
  the removal of the four scenario paths, whether they exist or not, and leaves every
  other path as it was.
\<close>

theorem cleanup_removes_tmp_files:
  assumes "distinct (map fst (nodes w))"
  shows "fst (cleanup dir w) = Inr () \<and>
    (\<forall>e. fst (Deno_readDir dir w) = Inl e \<longrightarrow> cleanup dir w = (Inr (), perform (ReadDir dir) w)) \<and>
    (\<forall>es. fst (Deno_readDir dir w) = Inr es \<and>
          (\<forall>x\<in>set (nodes w). tmp_file dir x \<longrightarrow> fault (snd x) = None) \<longrightarrow>
       \<not> list_ex (tmp_file dir) (nodes (snd (cleanup dir w))) \<and>
       performed (snd (cleanup dir w)) =
         performed w @ [ReadDir dir] @ map Remove (map fst (filter (tmp_file dir) (nodes w)))
           @ map Remove (scenario_paths dir) \<and>
       (\<forall>q. q \<notin> fst ` {x \<in> set (nodes w). tmp_file dir x} \<and> q \<notin> set (scenario_paths dir) \<longrightarrow>
            map_of (nodes (snd (cleanup dir w))) q = map_of (nodes w) q))"
proof (intro conjI allI impI)
  show "fst (cleanup dir w) = Inr ()" by (rule cleanup_never_throws)
next
  fix e assume "fst (Deno_readDir dir w) = Inl e"
  then show "cleanup dir w = (Inr (), perform (ReadDir dir) w)" by (rule cleanup_unlistable)
next
  fix es
  assume a: "fst (Deno_readDir dir w) = Inr es \<and>
          (\<forall>x\<in>set (nodes w). tmp_file dir x \<longrightarrow> fault (snd x) = None)"
  let ?ps = "map fst (filter (tmp_file dir) (nodes w))"
  from cleanup_listed_ok [OF assms, of dir es] a obtain R where R: "R \<subseteq> set (scenario_paths dir)"
    and c: "cleanup dir w =
      (Inr (), (perform_all (ReadDir dir # map Remove ?ps @ map Remove (scenario_paths dir)) w)
       \<lparr>nodes := filter (\<lambda>x. fst x \<notin> set ?ps \<union> R) (nodes w)\<rparr>)"
    by blast
  show "\<not> list_ex (tmp_file dir) (nodes (snd (cleanup dir w)))"
    unfolding c by (force simp: list_ex_iff)
  show "performed (snd (cleanup dir w)) =
         performed w @ [ReadDir dir] @ map Remove ?ps @ map Remove (scenario_paths dir)"
    unfolding c by (simp add: perform_all_fields)
  fix q
  assume q: "q \<notin> fst ` {x \<in> set (nodes w). tmp_file dir x} \<and> q \<notin> set (scenario_paths dir)"
  then have "q \<notin> set ?ps \<union> R" using R by auto
  then show "map_of (nodes (snd (cleanup dir w))) q = map_of (nodes w) q"
    unfolding c by (simp add: map_of_filter_notin del: Un_iff set_map)
qed

subsection \<open>Evaluating on the example worlds\<close>

lemmas path_eval = is_child_def basename_def endsWith_def tmp_file_def scenario_paths_def scenario_names_def

lemmas node_eval = world_of_def file_node_def dir_node_def

lemma mixed_distinct: "distinct (map fst (nodes mixed_workspace))"
  by (simp add: mixed_workspace_def node_eval)

lemma mixed_listing:
  "fst (Deno_readDir ''./d'' mixed_workspace) =
     Inr [\<lparr>name = ''a.tmp'', isFile = True, isDirectory = False, isSymlink = False\<rparr>,
          \<lparr>name = ''old.tmp'', isFile = False, isDirectory = True, isSymlink = False\<rparr>,
          \<lparr>name = ''keep.txt'', isFile = True, isDirectory = False, isSymlink = False\<rparr>,
          \<lparr>name = ''b.tmp'', isFile = True, isDirectory = False, isSymlink = False\<rparr>,
          \<lparr>name = ''data.json'', isFile = True, isDirectory = False, isSymlink = False\<rparr>]"
  by (simp add: Deno_readDir_def perform_def entry_of_def mixed_workspace_def node_eval path_eval)

lemma mixed_no_fault: "list_all (\<lambda>x. fault (snd x) = None) (nodes mixed_workspace)"
  by (simp add: mixed_workspace_def node_eval)

lemma mixed_tmp_files:
  "filter (tmp_file ''./d'') (nodes mixed_workspace) = [(''./d/a.tmp'', file_node [7]), (''./d/b.tmp'', file_node [])]"
  by (simp add: mixed_workspace_def node_eval path_eval)

lemma mixed_cleanup:
  "map fst (nodes (snd (cleanup ''./d'' mixed_workspace))) = [''.'', ''./d'', ''./d/old.tmp'', ''./d/keep.txt'']"
  by (simp add: cleanup_def try_catch_def bind_io_def then_io_def return_io_def Deno_readDir_def
      Deno_remove_def perform_def remove_if_tmp_def entry_of_def mixed_workspace_def node_eval path_eval)

text \<open>
  C2 as stated fails on a workspace holding a directory named \<^verbatim>\<open>old.tmp\<close>: the entry
  ends with the suffix, and cleanup leaves it in place.
\<close>

theorem tmp_directory_counterexample:
  "map_of (nodes mixed_workspace) ''./d/old.tmp'' = Some dir_node \<and>
   endsWith ''old.tmp'' ''.tmp'' \<and>
   \<lparr>name = ''old.tmp'', isFile = False, isDirectory = True, isSymlink = False\<rparr>
     \<in> set (case fst (Deno_readDir ''./d'' mixed_workspace) of Inl e \<Rightarrow> [] | Inr es \<Rightarrow> es) \<and>
   map_of (nodes (snd (cleanup ''./d'' mixed_workspace))) ''./d/old.tmp'' = Some dir_node"
  by (simp add: cleanup_def try_catch_def bind_io_def then_io_def return_io_def Deno_readDir_def
      Deno_remove_def perform_def remove_if_tmp_def entry_of_def mixed_workspace_def node_eval path_eval)


text \<open>The amended C2 on the mixed workspace: both temporary files go, the others stay.\<close>

theorem cleanup_removes_tmp_files_witness:
  "distinct (map fst (nodes mixed_workspace)) \<and>
   list_all (\<lambda>x. fault (snd x) = None) (nodes mixed_workspace) \<and>
   fst (cleanup ''./d'' mixed_workspace) = Inr () \<and>
   \<not> list_ex (tmp_file ''./d'') (nodes (snd (cleanup ''./d'' mixed_workspace))) \<and>
   performed (snd (cleanup ''./d'' mixed_workspace)) =
     [ReadDir ''./d'', Remove ''./d/a.tmp'', Remove ''./d/b.tmp'', Remove ''./d/config.json'',
      Remove ''./d/settings.json'', Remove ''./d/data.json'', Remove ''./d/cache.json''] \<and>
   map_of (nodes (snd (cleanup ''./d'' mixed_workspace))) ''./d/keep.txt'' = Some (file_node [])"
proof -
  have f: "\<forall>x\<in>set (nodes mixed_workspace). tmp_file ''./d'' x \<longrightarrow> fault (snd x) = None"
    using mixed_no_fault by (simp add: list_all_iff)
  have k: "''./d/keep.txt'' \<notin> fst ` {x \<in> set (nodes mixed_workspace). tmp_file ''./d'' x} \<and>
           ''./d/keep.txt'' \<notin> set (scenario_paths ''./d'')"
    by (simp add: mixed_workspace_def node_eval path_eval image_iff)
  have m: "map_of (nodes mixed_workspace) ''./d/keep.txt'' = Some (file_node [])"
    by (simp add: mixed_workspace_def node_eval)
  have p: "performed mixed_workspace = []"
    by (simp add: mixed_workspace_def node_eval)
  from cleanup_removes_tmp_files [OF mixed_distinct, of "''./d''"] mixed_listing f k m
  show ?thesis
    by (simp add: mixed_distinct mixed_no_fault mixed_tmp_files p scenario_paths_def scenario_names_def)
qed

subsection \<open>An empty workspace\<close>

lemma scenario_paths_children: "\<forall>p\<in>set (scenario_paths dir). is_child dir p"
  by (simp add: scenario_paths_def scenario_names_def is_child_path)

lemma no_children_absent:
  assumes "filter (\<lambda>x. is_child dir (fst x)) ns = []" "is_child dir p"
  shows "map_of ns p = None"
proof (rule ccontr)
  assume "map_of ns p \<noteq> None"
  then obtain n where "(p, n) \<in> set ns" by (auto dest: map_of_SomeD)
  with assms(2) have "(p, n) \<in> set (filter (\<lambda>x. is_child dir (fst x)) ns)" by simp
  with assms(1) show False by simp
qed

lemma tolerant_loop_absent:
  "\<forall>p\<in>set ps. map_of (nodes w) p = None \<Longrightarrow>
   for_each ps (\<lambda>p. try_catch (Deno_remove p) (return_io ())) w =
     (Inr (), perform_all (map Remove ps) w)"
proof (induction ps arbitrary: w)
  case Nil
  show ?case by (simp add: return_io_def perform_all_Nil)
next
  case (Cons p ps)
  then have "Deno_remove p w = (Inl (FsError NotFound), perform (Remove p) w)"
    by (simp add: Deno_remove_absent)
  moreover have "for_each ps (\<lambda>p. try_catch (Deno_remove p) (return_io ())) (perform (Remove p) w) =
     (Inr (), perform_all (map Remove ps) (perform (Remove p) w))"
    using Cons.prems by (intro Cons.IH) (simp add: perform_fields)
  ultimately show ?case
    by (simp add: bind_io_def try_catch_def return_io_def perform_all_Cons)
qed

lemma cleanup_empty:
  assumes "fst (Deno_readDir dir w) = Inr []"
  shows "cleanup dir w = (Inr (), perform_all (ReadDir dir # map Remove (scenario_paths dir)) w)"
proof -
  from Deno_readDir_Inr [OF assms] assms
  have none: "filter (\<lambda>x. is_child dir (fst x)) (nodes w) = []" by simp
  then have t: "filter (tmp_file dir) (nodes w) = []"
    by (auto simp: filter_empty_conv tmp_file_def)
  have "\<forall>p\<in>set (scenario_paths dir). map_of (nodes (perform (ReadDir dir) w)) p = None"
    using no_children_absent [OF none] scenario_paths_children by (simp add: perform_fields)
  from tolerant_loop_absent [OF this]
  have "for_each scenario_names (\<lambda>n. try_catch (Deno_remove (dir @ ''/'' @ n)) (return_io ()))
          (perform (ReadDir dir) w)
        = (Inr (), perform_all (map Remove (scenario_paths dir)) (perform (ReadDir dir) w))"
    by (simp add: scenario_paths_def for_each_map)
  then show ?thesis
    unfolding cleanup_listed [OF assms] t
    by (simp add: try_catch_def then_io_def bind_io_def return_io_def perform_all_Cons)
qed

text \<open>
  C8. On a workspace directory that lists as empty, cleanup returns normally and leaves
  the table of files unchanged, and so does a second cleanup right after it; the
  directory still lists as empty.
\<close>

theorem cleanup_idempotent_on_empty:
  assumes "fst (Deno_readDir dir w) = Inr []"
  shows "fst (cleanup dir w) = Inr () \<and>
    nodes (snd (cleanup dir w)) = nodes w \<and>
    fst (cleanup dir (snd (cleanup dir w))) = Inr () \<and>
    nodes (snd (cleanup dir (snd (cleanup dir w)))) = nodes w \<and>
    fst (Deno_readDir dir (snd (cleanup dir (snd (cleanup dir w))))) = Inr []"
proof -
  let ?ops = "ReadDir dir # map Remove (scenario_paths dir)"
  have 1: "cleanup dir w = (Inr (), perform_all ?ops w)"
    by (rule cleanup_empty [OF assms])
  have "fst (Deno_readDir dir (perform_all ?ops w)) = Inr []"
    using Deno_readDir_nodes [of "perform_all ?ops w" w dir] assms by (simp add: perform_all_fields)
  then have 2: "cleanup dir (perform_all ?ops w) = (Inr (), perform_all ?ops (perform_all ?ops w))"
    by (rule cleanup_empty)
  have 3: "fst (Deno_readDir dir (perform_all ?ops (perform_all ?ops w))) = Inr []"
    using Deno_readDir_nodes [of "perform_all ?ops (perform_all ?ops w)" w dir] assms
    by (simp add: perform_all_fields)
  show ?thesis
    unfolding 1 snd_conv fst_conv 2 using 3 by (simp add: perform_all_fields)
qed

text \<open>C8 on the empty workspace \<^verbatim>\<open>./d\<close>.\<close>

theorem cleanup_idempotent_on_empty_witness:
  "fst (Deno_readDir ''./d'' (empty_workspace ''./d'')) = Inr [] \<and>
   fst (cleanup ''./d'' (empty_workspace ''./d'')) = Inr () \<and>
   fst (cleanup ''./d'' (snd (cleanup ''./d'' (empty_workspace ''./d'')))) = Inr () \<and>
   nodes (snd (cleanup ''./d'' (snd (cleanup ''./d'' (empty_workspace ''./d''))))) =
     [(''.'', dir_node), (''./d'', dir_node)]"
proof -
  have e: "fst (Deno_readDir ''./d'' (empty_workspace ''./d'')) = Inr []"
    by (simp add: Deno_readDir_def perform_def empty_workspace_def node_eval path_eval)
  have n: "nodes (empty_workspace ''./d'') = [(''.'', dir_node), (''./d'', dir_node)]"
    by (simp add: empty_workspace_def world_of_def)
  from cleanup_idempotent_on_empty [OF e] e n show ?thesis by simp
qed

subsection \<open>A removal that fails in the first loop\<close>

lemma remove_all_fails:
  assumes "distinct (xs @ [p])"
    and "\<forall>q\<in>set xs. \<exists>n. map_of (nodes w) q = Some n \<and> fault n = None \<and> kind n \<noteq> Directory"
    and "map_of (nodes w) p = Some n" "fault n = Some err"
  shows "for_each (xs @ p # ys) Deno_remove w =
    (Inl (FsError err),
     (perform_all (map Remove xs @ [Remove p]) w)\<lparr>nodes := filter (\<lambda>x. fst x \<notin> set xs) (nodes w)\<rparr>)"
proof -
  let ?w = "(perform_all (map Remove xs) w)\<lparr>nodes := filter (\<lambda>x. fst x \<notin> set xs) (nodes w)\<rparr>"
  have "distinct xs" using assms(1) by simp
  then have 1: "for_each xs Deno_remove w = (Inr (), ?w)"
    using assms(2) by (rule remove_all_ok)
  have "p \<notin> set xs" using assms(1) by simp
  then have "map_of (nodes ?w) p = Some n"
    using assms(3) by (simp add: map_of_filter_notin)
  then have 2: "Deno_remove p ?w = (Inl (FsError err), perform (Remove p) ?w)"
    using assms(4) by (rule Deno_remove_fault)
  have "for_each (xs @ p # ys) Deno_remove w = (Inl (FsError err), perform (Remove p) ?w)"
    using 1 2 by (simp add: for_each_append then_io_def bind_io_def)
  then show ?thesis
    by (simp add: perform_all_append perform_all_Cons perform_all_Nil perform_nodes_update)
qed

lemma endsWith_tmp_not_scenario:
  "n \<in> set scenario_names \<Longrightarrow> \<not> endsWith n ''.tmp''"
  by (auto simp: scenario_names_def endsWith_def)

lemma scenario_path_not_tmp:
  assumes "q \<in> set (scenario_paths dir)"
  shows "\<not> tmp_file dir (q, n)"
proof -
  from assms obtain nm where nm: "nm \<in> set scenario_names" "q = dir @ CHR ''/'' # nm"
    by (auto simp: scenario_paths_def)
  then have "CHR ''/'' \<notin> set nm" by (auto simp: scenario_names_def)
  then have "basename q = nm" using nm(2) by (simp add: basename_child)
  with endsWith_tmp_not_scenario [OF nm(1)] show ?thesis by (simp add: tmp_file_def)
qed

text \<open>
  C9. cleanup returns normally from every world, whatever fails. When the listing
  succeeds and the removal of a temporary file throws (the file is faulty) after the
  temporary files before it have been removed, cleanup stops there: the world it leaves
  is the one right after the failed removal. The temporary files after the faulty one
  are still there, the scenario files are as they were, and no removal of any of them
  has been attempted.
\<close>

theorem cleanup_swallows_and_skips:
  assumes "distinct (map fst (nodes w))"
    and "fst (Deno_readDir dir w) = Inr es"
    and "filter (tmp_file dir) (nodes w) = xs @ (p, n) # ys"
    and "\<forall>x\<in>set xs. fault (snd x) = None"
    and "fault n = Some err"
  shows "(\<forall>d v. fst (cleanup d v) = Inr ()) \<and>
    cleanup dir w =
      (Inr (), (perform_all (ReadDir dir # map Remove (map fst xs) @ [Remove p]) w)
               \<lparr>nodes := filter (\<lambda>x. fst x \<notin> fst ` set xs) (nodes w)\<rparr>) \<and>
    set ys \<subseteq> set (nodes (snd (cleanup dir w))) \<and>
    (p, n) \<in> set (nodes (snd (cleanup dir w))) \<and>
    (\<forall>q\<in>set (scenario_paths dir).
        map_of (nodes (snd (cleanup dir w))) q = map_of (nodes w) q \<and>
        Remove q \<notin> set (performed (snd (cleanup dir w))) - set (performed w)) \<and>
    (\<forall>y\<in>set ys. Remove (fst y) \<notin> set (performed (snd (cleanup dir w))) - set (performed w))"
proof -
  let ?w1 = "perform (ReadDir dir) w"
  let ?ps = "map fst xs"
  let ?w' = "(perform_all (ReadDir dir # map Remove ?ps @ [Remove p]) w)
               \<lparr>nodes := filter (\<lambda>x. fst x \<notin> fst ` set xs) (nodes w)\<rparr>"
  have "set (xs @ (p, n) # ys) = {x \<in> set (nodes w). tmp_file dir x}"
    unfolding assms(3) [symmetric] by simp
  then have tmp: "\<forall>x\<in>set (xs @ (p, n) # ys). x \<in> set (nodes w) \<and> tmp_file dir x"
    by blast
  have dall: "distinct (map fst (xs @ (p, n) # ys))"
    using tmp_paths_distinct [OF assms(1), of dir] assms(3) by simp
  then have d: "distinct (?ps @ [p])" by auto
  have ok: "\<forall>q\<in>set ?ps. \<exists>n. map_of (nodes ?w1) q = Some n \<and> fault n = None \<and> kind n \<noteq> Directory"
    using tmp_paths_removable [OF assms(1), of xs dir] tmp assms(4) by (simp add: perform_fields)
  have pn: "map_of (nodes ?w1) p = Some n"
    using tmp assms(1) by (simp add: perform_fields)
  have loop: "for_each (map fst (filter (tmp_file dir) (nodes w))) Deno_remove ?w1 =
    (Inl (FsError err),
     (perform_all (map Remove ?ps @ [Remove p]) ?w1)\<lparr>nodes := filter (\<lambda>x. fst x \<notin> set ?ps) (nodes ?w1)\<rparr>)"
    unfolding assms(3) using remove_all_fails [OF d ok pn assms(5), of "map fst ys"] by simp
  have c: "cleanup dir w = (Inr (), ?w')"
    unfolding cleanup_listed [OF assms(2)]
    using loop by (simp add: try_catch_def then_io_def bind_io_def return_io_def
        perform_all_Cons perform_fields)
  have nodes': "nodes ?w' = filter (\<lambda>x. fst x \<notin> fst ` set xs) (nodes w)" by simp
  have performed': "performed ?w' = performed w @ ReadDir dir # map Remove ?ps @ [Remove p]"
    by (simp add: perform_all_fields)
  have ys_paths: "\<forall>y\<in>set ys. fst y \<notin> set ?ps \<and> fst y \<noteq> p"
    using dall by auto
  have keep_ys: "set ys \<subseteq> set (nodes ?w')"
    using tmp ys_paths by (auto simp: nodes')
  have keep_p: "(p, n) \<in> set (nodes ?w')"
    using tmp d by (auto simp: nodes')
  have scen: "\<forall>q\<in>set (scenario_paths dir). q \<notin> set ?ps \<and> q \<noteq> p"
    using scenario_path_not_tmp [of _ dir] tmp by fastforce
  have new_ops: "set (performed ?w') - set (performed w) \<subseteq> insert (ReadDir dir) (Remove ` (fst ` set xs \<union> {p}))"
    unfolding performed' by auto
  have "\<forall>q\<in>set (scenario_paths dir).
        map_of (nodes ?w') q = map_of (nodes w) q \<and> Remove q \<notin> set (performed ?w') - set (performed w)"
  proof
    fix q assume "q \<in> set (scenario_paths dir)"
    with scen have q: "q \<notin> fst ` set xs" "q \<noteq> p" by auto
    have "map_of (nodes ?w') q = map_of (nodes w) q"
      unfolding nodes' using q(1) by (simp only: map_of_filter_notin if_False)
    moreover have "Remove q \<notin> set (performed ?w') - set (performed w)"
      using new_ops q by blast
    ultimately show "map_of (nodes ?w') q = map_of (nodes w) q \<and>
        Remove q \<notin> set (performed ?w') - set (performed w)" ..
  qed
  moreover have "\<forall>y\<in>set ys. Remove (fst y) \<notin> set (performed ?w') - set (performed w)"
    using ys_paths new_ops by fastforce
  ultimately show ?thesis
    unfolding c snd_conv using keep_ys keep_p cleanup_never_throws by blast
qed

text \<open>
  C9 on the faulty workspace: the removal of \<^verbatim>\<open>b.tmp\<close> throws an I/O error; cleanup
  returns normally, \<^verbatim>\<open>c.tmp\<close> and \<^verbatim>\<open>data.json\<close> are still there.
\<close>

theorem cleanup_swallows_and_skips_witness:
  "filter (tmp_file ''./d'') (nodes faulty_workspace) =
     [(''./d/a.tmp'', file_node [7])] @
     (''./d/b.tmp'', (file_node [])\<lparr>fault := Some IOError\<rparr>) # [(''./d/c.tmp'', file_node [])] \<and>
   fst (cleanup ''./d'' faulty_workspace) = Inr () \<and>
   performed (snd (cleanup ''./d'' faulty_workspace)) =
     [ReadDir ''./d'', Remove ''./d/a.tmp'', Remove ''./d/b.tmp''] \<and>
   map fst (nodes (snd (cleanup ''./d'' faulty_workspace))) =
     [''.'', ''./d'', ''./d/b.tmp'', ''./d/c.tmp'', ''./d/data.json'']"
proof -
  have d: "distinct (map fst (nodes faulty_workspace))"
    by (simp add: faulty_workspace_def node_eval)
  have l: "fst (Deno_readDir ''./d'' faulty_workspace) =
     Inr (map entry_of (filter (\<lambda>x. is_child ''./d'' (fst x)) (nodes faulty_workspace)))"
    by (simp add: Deno_readDir_def perform_def faulty_workspace_def node_eval)
  have t: "filter (tmp_file ''./d'') (nodes faulty_workspace) =
     [(''./d/a.tmp'', file_node [7])] @
     (''./d/b.tmp'', (file_node [])\<lparr>fault := Some IOError\<rparr>) # [(''./d/c.tmp'', file_node [])]"
    by (simp add: faulty_workspace_def node_eval path_eval)
  have x: "\<forall>x\<in>set [(''./d/a.tmp'', file_node [7])]. fault (snd x) = None"
    by (simp add: file_node_def)
  have e: "fault ((file_node [])\<lparr>fault := Some IOError\<rparr>) = Some IOError"
    by simp
  have "cleanup ''./d'' faulty_workspace =
      (Inr (), (perform_all (ReadDir ''./d'' # map Remove (map fst [(''./d/a.tmp'', file_node [7])])
                  @ [Remove ''./d/b.tmp'']) faulty_workspace)
               \<lparr>nodes := filter (\<lambda>x. fst x \<notin> fst ` set [(''./d/a.tmp'', file_node [7])])
                            (nodes faulty_workspace)\<rparr>)"
    using cleanup_swallows_and_skips [OF d l t x e] by blast
  then show ?thesis
    using t by (simp add: perform_all_fields) (simp add: faulty_workspace_def node_eval)
qed

subsection \<open>Storing nodes\<close>

lemma map_fst_put:
  "map fst (put p n ns) = (if p \<in> set (map fst ns) then map fst ns else map fst ns @ [p])"
proof -
  have "map fst (map (\<lambda>(q, m). if q = p then (q, n) else (q, m)) ns) = map fst ns"
    by (induction ns) auto
  then show ?thesis by (simp add: put_def)
qed

lemma map_of_replace:
  "map_of (map (\<lambda>(q, m). if q = p then (q, n) else (q, m)) ns) q =
     (if q = p then (if p \<in> fst ` set ns then Some n else None) else map_of ns q)"
  by (induction ns) (force split: if_splits)+

lemma map_of_put: "map_of (put p n ns) q = (if q = p then Some n else map_of ns q)"
proof (cases "p \<in> set (map fst ns)")
  case True
  then show ?thesis by (simp add: put_def map_of_replace)
next
  case False
  then have "map_of ns p = None" by (simp add: map_of_eq_None_iff)
  with False show ?thesis by (auto simp: put_def map_add_def split: option.splits)
qed

lemma set_put: "set (put p n ns) \<subseteq> insert (p, n) (set ns)"
  by (auto simp: put_def split: if_splits)

lemma distinct_put: "distinct (map fst ns) \<Longrightarrow> distinct (map fst (put p n ns))"
  by (simp add: map_fst_put)

lemma put_all_Nil: "put_all [] n ns = ns"
  by (simp add: put_all_def)

lemma put_all_Cons: "put_all (p # ps) n ns = put_all ps n (put p n ns)"
  by (simp add: put_all_def)

lemma map_of_put_all: "map_of (put_all ps n ns) q = (if q \<in> set ps then Some n else map_of ns q)"
  by (induction ps arbitrary: ns) (auto simp: put_all_Nil put_all_Cons map_of_put)

subsection \<open>A healthy workspace stays healthy\<close>

lemma workspace_ok_fields:
  "nodes v = nodes w \<Longrightarrow> workspace_ok dir v = workspace_ok dir w"
  by (simp add: workspace_ok_def)

lemma child_not_dir: "is_child dir p \<Longrightarrow> p \<noteq> dir"
  by (auto simp: is_child_def)

lemma workspace_ok_is_dir: "workspace_ok dir w \<Longrightarrow> is_dir w dir"
  by (simp add: workspace_ok_def is_dir_def)

lemma workspace_ok_put:
  assumes "workspace_ok dir w" "is_child dir p"
  shows "workspace_ok dir (w\<lparr>nodes := put p (file_node d) (nodes w)\<rparr>)"
proof -
  let ?P = "\<lambda>pn. fault (snd pn) = None \<and>
          (if is_child dir (fst pn) then kind (snd pn) = RegularFile else True)"
  have old: "\<forall>x\<in>set (nodes w). ?P x"
    using assms(1) by (simp add: workspace_ok_def list_all_iff)
  have "\<forall>x\<in>set (put p (file_node d) (nodes w)). ?P x"
  proof
    fix x assume "x \<in> set (put p (file_node d) (nodes w))"
    then have "x = (p, file_node d) \<or> x \<in> set (nodes w)"
      using set_put [of p "file_node d" "nodes w"] by blast
    then show "?P x"
    proof
      assume "x = (p, file_node d)"
      then show ?thesis by (simp add: file_node_def)
    next
      assume "x \<in> set (nodes w)"
      with old show ?thesis by blast
    qed
  qed
  then have "list_all ?P (put p (file_node d) (nodes w))"
    by (simp add: list_all_iff)
  moreover have "distinct (map fst (put p (file_node d) (nodes w)))"
    using assms(1) by (simp add: workspace_ok_def distinct_put)
  moreover have "map_of (put p (file_node d) (nodes w)) dir = map_of (nodes w) dir"
    using child_not_dir [OF assms(2)] by (simp add: map_of_put)
  ultimately show ?thesis
    using assms(1) by (simp add: workspace_ok_def)
qed

lemma workspace_ok_filter:
  assumes "workspace_ok dir w" "P (dir, the (map_of (nodes w) dir))"
  shows "workspace_ok dir (w\<lparr>nodes := filter P (nodes w)\<rparr>)"
proof -
  from assms(1) obtain d where d: "map_of (nodes w) dir = Some d" "kind d = Directory"
    by (auto simp: workspace_ok_def split: option.splits)
  have dist: "distinct (map fst (nodes w))" using assms(1) by (simp add: workspace_ok_def)
  then have "(dir, d) \<in> set (nodes w)" using d by simp
  then have "(dir, d) \<in> set (filter P (nodes w))" using assms(2) d by simp
  moreover have "distinct (map fst (filter P (nodes w)))"
    using dist by (rule distinct_map_filter)
  ultimately have "map_of (filter P (nodes w)) dir = Some d" by simp
  then show ?thesis
    using assms(1) d \<open>distinct (map fst (filter P (nodes w)))\<close>
    by (auto simp: workspace_ok_def list_all_iff)
qed

subsection \<open>Writing, reading and querying in a healthy workspace\<close>

lemma good_path_parent: "good_path dir p \<Longrightarrow> dirname p = dir"
proof -
  assume g: "good_path dir p"
  then have "p = dir @ CHR ''/'' # basename p" by (simp add: good_path_def is_child_def)
  then have "dirname p = dirname (dir @ CHR ''/'' # basename p)" by simp
  also have "\<dots> = dir" using g by (simp add: good_path_def dirname_child)
  finally show ?thesis .
qed

lemma Deno_writeFile_ok:
  assumes "workspace_ok dir w" "good_path dir p"
  shows "Deno_writeFile p d w =
    (Inr (), (perform (WriteFile p d) w)\<lparr>nodes := put p (file_node d) (nodes w)\<rparr>)"
proof (cases "map_of (nodes w) p")
  case None
  moreover have "is_dir (perform (WriteFile p d) w) (dirname p)"
    using workspace_ok_is_dir [OF assms(1)] good_path_parent [OF assms(2)]
    by (simp add: is_dir_def perform_fields)
  ultimately show ?thesis
    by (simp add: Deno_writeFile_def perform_fields Let_def file_node_def)
next
  case (Some n)
  then have "(p, n) \<in> set (nodes w)" by (rule map_of_SomeD)
  with assms have "fault n = None" "kind n = RegularFile"
    by (auto simp: workspace_ok_def list_all_iff good_path_def)
  then have "n\<lparr>bytes := d\<rparr> = file_node d" by (cases n) (simp add: file_node_def)
  with Some \<open>fault n = None\<close> \<open>kind n = RegularFile\<close> show ?thesis
    by (simp add: Deno_writeFile_def perform_fields Let_def)
qed

lemma write_all_ok:
  assumes "workspace_ok dir w" "\<forall>p\<in>set ps. good_path dir p"
  shows "for_each ps (\<lambda>p. Deno_writeFile p d) w =
      (Inr (), (perform_all (map (\<lambda>p. WriteFile p d) ps) w)
               \<lparr>nodes := put_all ps (file_node d) (nodes w)\<rparr>) \<and>
    workspace_ok dir ((perform_all (map (\<lambda>p. WriteFile p d) ps) w)
               \<lparr>nodes := put_all ps (file_node d) (nodes w)\<rparr>)"
  using assms
proof (induction ps arbitrary: w)
  case Nil
  then show ?case
    using workspace_ok_fields [of "w\<lparr>nodes := nodes w\<rparr>" w dir]
    by (simp add: return_io_def perform_all_Nil put_all_Nil)
next
  case (Cons p ps)
  let ?w = "(perform (WriteFile p d) w)\<lparr>nodes := put p (file_node d) (nodes w)\<rparr>"
  have g: "good_path dir p" using Cons.prems by simp
  have step: "Deno_writeFile p d w = (Inr (), ?w)"
    using Cons.prems(1) g by (rule Deno_writeFile_ok)
  have "workspace_ok dir (w\<lparr>nodes := put p (file_node d) (nodes w)\<rparr>)"
    using Cons.prems(1) g by (simp add: workspace_ok_put good_path_def)
  then have ok: "workspace_ok dir ?w"
    using workspace_ok_fields [of ?w "w\<lparr>nodes := put p (file_node d) (nodes w)\<rparr>" dir] by simp
  have "\<forall>q\<in>set ps. good_path dir q" using Cons.prems by simp
  from Cons.IH [OF ok this] step show ?case
    by (simp add: bind_io_def perform_all_Cons perform_all_nodes_update put_all_Cons)
qed

lemma Deno_readFile_ok:
  assumes "map_of (nodes w) p = Some n" "kind n \<noteq> Directory" "fault n = None"
  shows "Deno_readFile p w = (Inr (bytes n), perform (ReadFile p) w)"
  using assms by (simp add: Deno_readFile_def perform_fields Let_def)

lemma Deno_stat_ok:
  assumes "map_of (nodes w) p = Some n" "fault n = None"
  shows "Deno_stat p w =
    (Inr \<lparr>info_isFile = (kind n = RegularFile), info_size = length (bytes n)\<rparr>, perform (Stat p) w)"
  using assms by (simp add: Deno_stat_def perform_fields Let_def)

lemma read_all_ok:
  assumes "\<forall>p\<in>set ps. \<exists>n. map_of (nodes w) p = Some n \<and> kind n \<noteq> Directory \<and> fault n = None"
  shows "for_each ps (\<lambda>p. then_io (Deno_readFile p) (return_io ())) w =
    (Inr (), perform_all (map ReadFile ps) w)"
  using assms
proof (induction ps arbitrary: w)
  case Nil
  show ?case by (simp add: return_io_def perform_all_Nil)
next
  case (Cons p ps)
  then obtain n where "map_of (nodes w) p = Some n" "kind n \<noteq> Directory" "fault n = None"
    by auto
  then have "Deno_readFile p w = (Inr (bytes n), perform (ReadFile p) w)"
    by (rule Deno_readFile_ok)
  moreover have "for_each ps (\<lambda>p. then_io (Deno_readFile p) (return_io ())) (perform (ReadFile p) w) =
    (Inr (), perform_all (map ReadFile ps) (perform (ReadFile p) w))"
    using Cons.prems by (intro Cons.IH) (simp add: perform_fields)
  ultimately show ?case
    by (simp add: bind_io_def then_io_def return_io_def perform_all_Cons)
qed

lemma stat_all_ok:
  assumes "map_of (nodes w) p = Some n" "fault n = None"
  shows "for_each xs (\<lambda>i. then_io (Deno_stat p) (return_io ())) w =
    (Inr (), perform_all (replicate (length xs) (Stat p)) w)"
  using assms
proof (induction xs arbitrary: w)
  case Nil
  show ?case by (simp add: return_io_def perform_all_Nil)
next
  case (Cons x xs)
  have "Deno_stat p w =
    (Inr \<lparr>info_isFile = (kind n = RegularFile), info_size = length (bytes n)\<rparr>, perform (Stat p) w)"
    using Cons.prems by (rule Deno_stat_ok)
  moreover have "for_each xs (\<lambda>i. then_io (Deno_stat p) (return_io ())) (perform (Stat p) w) =
    (Inr (), perform_all (replicate (length xs) (Stat p)) (perform (Stat p) w))"
    using Cons.prems by (intro Cons.IH) (simp_all add: perform_fields)
  ultimately show ?case
    by (simp add: bind_io_def then_io_def return_io_def perform_all_Cons)
qed

subsection \<open>The paths of the benchmarks\<close>

lemma good_child: "nm \<noteq> [] \<Longrightarrow> CHR ''/'' \<notin> set nm \<Longrightarrow> good_path dir (dir @ CHR ''/'' # nm)"
  by (simp add: good_path_def is_child_path basename_child)

lemma good_write_path: "good_path dir (write_path dir i)"
  using good_child [of "''write_'' @ show_nat i @ ''.tmp''" dir]
  by (simp add: write_path_def show_nat_no_slash)

lemma good_read_path: "good_path dir (read_path dir i)"
  using good_child [of "''read_'' @ show_nat i @ ''.tmp''" dir]
  by (simp add: read_path_def show_nat_no_slash)

lemma good_stat_path: "good_path dir (stat_path dir)"
  using good_child [of "''stat.tmp''" dir] by (simp add: stat_path_def)

lemma good_concurrent_path: "good_path dir (concurrent_path dir i)"
  using good_child [of "''concurrent_'' @ show_nat i @ ''.tmp''" dir]
  by (simp add: concurrent_path_def show_nat_no_slash)

lemma basename_write_path: "basename (write_path dir i) = ''write_'' @ show_nat i @ ''.tmp''"
  using basename_child [of "''write_'' @ show_nat i @ ''.tmp''" dir]
  by (simp add: write_path_def show_nat_no_slash)

lemma basename_concurrent_path:
  "basename (concurrent_path dir i) = ''concurrent_'' @ show_nat i @ ''.tmp''"
  using basename_child [of "''concurrent_'' @ show_nat i @ ''.tmp''" dir]
  by (simp add: concurrent_path_def show_nat_no_slash)

lemma write_path_inj: "write_path dir i = write_path dir j \<Longrightarrow> i = j"
  by (simp add: write_path_def show_nat_inj)

lemma read_path_inj: "read_path dir i = read_path dir j \<Longrightarrow> i = j"
  by (simp add: read_path_def show_nat_inj)

lemma concurrent_path_inj: "concurrent_path dir i = concurrent_path dir j \<Longrightarrow> i = j"
  by (simp add: concurrent_path_def show_nat_inj)

lemma distinct_write_paths: "distinct (map (write_path dir) [0..<n])"
  by (simp add: distinct_map inj_on_def) (blast dest: write_path_inj)

lemma distinct_read_paths: "distinct (map (read_path dir) [0..<n])"
  by (simp add: distinct_map inj_on_def) (blast dest: read_path_inj)

lemma endsWith_append: "endsWith (xs @ t) t"
  by (simp add: endsWith_def)

lemma write_path_tmp: "endsWith (basename (write_path dir i)) ''.tmp''"
  using endsWith_append [of "''write_'' @ show_nat i" "''.tmp''"]
  by (simp add: basename_write_path)

subsection \<open>The serial benchmarks in a healthy workspace\<close>

lemma benchWrite_ok:
  assumes "workspace_ok dir w"
  shows "benchWrite sz n dir w =
      (Inr (sum_list (map (latency w) (map (\<lambda>p. WriteFile p (replicate sz 0)) (map (write_path dir) [0..<n])))
              / real n),
       (perform_all (map (\<lambda>p. WriteFile p (replicate sz 0)) (map (write_path dir) [0..<n])) w)
       \<lparr>nodes := put_all (map (write_path dir) [0..<n]) (file_node (replicate sz 0)) (nodes w)\<rparr>) \<and>
    workspace_ok dir
      ((perform_all (map (\<lambda>p. WriteFile p (replicate sz 0)) (map (write_path dir) [0..<n])) w)
       \<lparr>nodes := put_all (map (write_path dir) [0..<n]) (file_node (replicate sz 0)) (nodes w)\<rparr>)"
proof -
  let ?ps = "map (write_path dir) [0..<n]"
  have g: "\<forall>p\<in>set ?ps. good_path dir p" by (simp add: good_write_path)
  have loop: "for_each [0..<n] (\<lambda>i. Deno_writeFile (write_path dir i) (replicate sz 0)) =
         for_each ?ps (\<lambda>p. Deno_writeFile p (replicate sz 0))"
    by (simp add: for_each_map)
  from write_all_ok [OF assms g, of "replicate sz 0"] show ?thesis
    unfolding benchWrite_def Let_def loop
    by (simp add: bind_io_def then_io_def performance_now_def return_io_def perform_all_fields)
qed

lemma benchRead_ok:
  assumes "workspace_ok dir w"
  shows "benchRead sz n dir w =
      (Inr (sum_list (map (latency w) (map ReadFile (map (read_path dir) [0..<n]))) / real n),
       (perform_all (map (\<lambda>p. WriteFile p (replicate sz 0)) (map (read_path dir) [0..<n])
                     @ map ReadFile (map (read_path dir) [0..<n])) w)
       \<lparr>nodes := put_all (map (read_path dir) [0..<n]) (file_node (replicate sz 0)) (nodes w)\<rparr>) \<and>
    workspace_ok dir
      ((perform_all (map (\<lambda>p. WriteFile p (replicate sz 0)) (map (read_path dir) [0..<n])
                     @ map ReadFile (map (read_path dir) [0..<n])) w)
       \<lparr>nodes := put_all (map (read_path dir) [0..<n]) (file_node (replicate sz 0)) (nodes w)\<rparr>)"
proof -
  let ?ps = "map (read_path dir) [0..<n]"
  let ?ws = "map (\<lambda>p. WriteFile p (replicate sz 0)) ?ps"
  let ?w1 = "(perform_all ?ws w)\<lparr>nodes := put_all ?ps (file_node (replicate sz 0)) (nodes w)\<rparr>"
  have g: "\<forall>p\<in>set ?ps. good_path dir p" by (simp add: good_read_path)
  have writes: "for_each [0..<n] (\<lambda>i. Deno_writeFile (read_path dir i) (replicate sz 0)) w = (Inr (), ?w1)"
    and ok1: "workspace_ok dir ?w1"
    using write_all_ok [OF assms g, of "replicate sz 0"] by (simp_all add: for_each_map)
  have "\<forall>p\<in>set ?ps. \<exists>m. map_of (nodes ?w1) p = Some m \<and> kind m \<noteq> Directory \<and> fault m = None"
    by (simp add: map_of_put_all file_node_def)
  from read_all_ok [OF this]
  have reads: "for_each [0..<n] (\<lambda>i. then_io (Deno_readFile (read_path dir i)) (return_io ())) ?w1 =
      (Inr (), perform_all (map ReadFile ?ps) ?w1)"
    by (simp add: for_each_map)
  have res: "benchRead sz n dir w =
      (Inr (sum_list (map (latency w) (map ReadFile ?ps)) / real n), perform_all (map ReadFile ?ps) ?w1)"
    unfolding benchRead_def Let_def using writes reads
    by (simp add: bind_io_def then_io_def performance_now_def return_io_def perform_all_fields)
  have eq: "perform_all (map ReadFile ?ps) ?w1 =
      (perform_all (?ws @ map ReadFile ?ps) w)\<lparr>nodes := put_all ?ps (file_node (replicate sz 0)) (nodes w)\<rparr>"
    by (simp add: perform_all_append perform_all_nodes_update)
  have "workspace_ok dir (perform_all (map ReadFile ?ps) ?w1)"
    using ok1 workspace_ok_fields [of "perform_all (map ReadFile ?ps) ?w1" ?w1 dir]
    by (simp add: perform_all_fields)
  with res eq show ?thesis by simp
qed

lemma benchStat_ok:
  assumes "workspace_ok dir w"
  shows "benchStat n dir w =
      (Inr (sum_list (map (latency w) (replicate n (Stat (stat_path dir)))) / real n),
       (perform_all (WriteFile (stat_path dir) [1, 2, 3] # replicate n (Stat (stat_path dir))) w)
       \<lparr>nodes := put (stat_path dir) (file_node [1, 2, 3]) (nodes w)\<rparr>) \<and>
    workspace_ok dir
      ((perform_all (WriteFile (stat_path dir) [1, 2, 3] # replicate n (Stat (stat_path dir))) w)
       \<lparr>nodes := put (stat_path dir) (file_node [1, 2, 3]) (nodes w)\<rparr>)"
proof -
  let ?p = "stat_path dir"
  let ?w1 = "(perform (WriteFile ?p [1, 2, 3]) w)\<lparr>nodes := put ?p (file_node [1, 2, 3]) (nodes w)\<rparr>"
  have writes: "Deno_writeFile ?p [1, 2, 3] w = (Inr (), ?w1)"
    using assms good_stat_path by (rule Deno_writeFile_ok)
  have "workspace_ok dir (w\<lparr>nodes := put ?p (file_node [1, 2, 3]) (nodes w)\<rparr>)"
    using assms good_stat_path [of dir] by (simp add: workspace_ok_put good_path_def)
  then have ok1: "workspace_ok dir ?w1"
    using workspace_ok_fields [of ?w1 "w\<lparr>nodes := put ?p (file_node [1, 2, 3]) (nodes w)\<rparr>" dir]
    by simp
  have "map_of (nodes ?w1) ?p = Some (file_node [1, 2, 3])" "fault (file_node [1, 2, 3]) = None"
    by (simp_all add: map_of_put file_node_def)
  from stat_all_ok [OF this, of "[0..<n]"]
  have stats: "for_each [0..<n] (\<lambda>i. then_io (Deno_stat ?p) (return_io ())) ?w1 =
      (Inr (), perform_all (replicate n (Stat ?p)) ?w1)"
    by simp
  have res: "benchStat n dir w =
      (Inr (sum_list (map (latency w) (replicate n (Stat ?p))) / real n),
       perform_all (replicate n (Stat ?p)) ?w1)"
    unfolding benchStat_def using writes stats
    by (simp add: bind_io_def then_io_def performance_now_def return_io_def perform_all_fields
        perform_fields)
  have eq: "perform_all (replicate n (Stat ?p)) ?w1 =
      (perform_all (WriteFile ?p [1, 2, 3] # replicate n (Stat ?p)) w)
       \<lparr>nodes := put ?p (file_node [1, 2, 3]) (nodes w)\<rparr>"
    by (simp add: perform_all_Cons perform_all_nodes_update)
  have "workspace_ok dir (perform_all (replicate n (Stat ?p)) ?w1)"
    using ok1 workspace_ok_fields [of "perform_all (replicate n (Stat ?p)) ?w1" ?w1 dir]
    by (simp add: perform_all_fields)
  with res eq show ?thesis by simp
qed

subsection \<open>cleanup in a healthy workspace\<close>

lemma workspace_ok_listable:
  assumes "workspace_ok dir w"
  shows "fst (Deno_readDir dir w) =
    Inr (map entry_of (filter (\<lambda>x. is_child dir (fst x)) (nodes w)))"
proof -
  from assms obtain d where d: "map_of (nodes w) dir = Some d" "kind d = Directory"
    by (auto simp: workspace_ok_def split: option.splits)
  then have "(dir, d) \<in> set (nodes w)" by (auto dest: map_of_SomeD)
  with assms have "fault d = None" by (auto simp: workspace_ok_def list_all_iff)
  with d show ?thesis
    by (simp add: Deno_readDir_def perform_fields Let_def case_prod_unfold)
qed

lemma cleanup_ok:
  assumes "workspace_ok dir w"
  shows "fst (cleanup dir w) = Inr () \<and>
    workspace_ok dir (snd (cleanup dir w)) \<and>
    \<not> list_ex (tmp_file dir) (nodes (snd (cleanup dir w))) \<and>
    console (snd (cleanup dir w)) = console w \<and>
    latency (snd (cleanup dir w)) = latency w \<and>
    set (nodes (snd (cleanup dir w))) \<subseteq> set (nodes w)"
proof -
  let ?ps = "map fst (filter (tmp_file dir) (nodes w))"
  have d: "distinct (map fst (nodes w))" using assms by (simp add: workspace_ok_def)
  have f: "\<forall>x\<in>set (nodes w). tmp_file dir x \<longrightarrow> fault (snd x) = None"
    using assms by (simp add: workspace_ok_def list_all_iff)
  from cleanup_listed_ok [OF d workspace_ok_listable [OF assms] f]
  obtain R where R: "R \<subseteq> set (scenario_paths dir)" and c: "cleanup dir w =
      (Inr (), (perform_all (ReadDir dir # map Remove ?ps @ map Remove (scenario_paths dir)) w)
       \<lparr>nodes := filter (\<lambda>x. fst x \<notin> set ?ps \<union> R) (nodes w)\<rparr>)"
    by blast
  let ?w' = "(perform_all (ReadDir dir # map Remove ?ps @ map Remove (scenario_paths dir)) w)
       \<lparr>nodes := filter (\<lambda>x. fst x \<notin> set ?ps \<union> R) (nodes w)\<rparr>"
  have "\<forall>p\<in>set ?ps \<union> R. is_child dir p"
    using R scenario_paths_children [of dir] by (auto simp: tmp_file_def)
  then have "dir \<notin> set ?ps \<union> R" using child_not_dir by blast
  then have "workspace_ok dir (w\<lparr>nodes := filter (\<lambda>x. fst x \<notin> set ?ps \<union> R) (nodes w)\<rparr>)"
    using assms by (intro workspace_ok_filter) simp_all
  then have ok: "workspace_ok dir ?w'"
    using workspace_ok_fields [of ?w' "w\<lparr>nodes := filter (\<lambda>x. fst x \<notin> set ?ps \<union> R) (nodes w)\<rparr>" dir]
    by simp
  have "\<not> list_ex (tmp_file dir) (nodes ?w')"
    by (force simp: list_ex_iff)
  with ok show ?thesis
    unfolding c by (simp add: perform_all_fields)
qed

subsection \<open>One pass of the loop over the size buckets\<close>

lemma console_log_apply: "console_log l w = (Inr (), w\<lparr>console := console w @ [l]\<rparr>)"
  by (simp add: console_log_def)

lemma workspace_ok_console: "workspace_ok dir (w\<lparr>console := c\<rparr>) = workspace_ok dir w"
  by (simp add: workspace_ok_def)

lemma sum_list_replicate_real: "sum_list (replicate n (x::real)) = real n * x"
  by (induction n) (simp_all add: algebra_simps)

lemma single_bucket_ok:
  assumes "workspace_ok testDir w"
  shows "\<exists>a r. fst (single_bucket b w) = Inr () \<and>
    workspace_ok testDir (snd (single_bucket b w)) \<and>
    \<not> list_ex (tmp_file testDir) (nodes (snd (single_bucket b w))) \<and>
    latency (snd (single_bucket b w)) = latency w \<and>
    console (snd (single_bucket b w)) =
      console w @ [Testing (bname b) ITERATIONS, WriteAvg a, ReadAvg r,
                   StatAvg (latency w (Stat (stat_path testDir))), Fixed 88]"
proof -
  let ?n = ITERATIONS
  define w0 where "w0 = w\<lparr>console := console w @ [Testing (bname b) ?n]\<rparr>"
  have ok0: "workspace_ok testDir w0" using assms by (simp add: w0_def workspace_ok_console)
  from benchWrite_ok [OF ok0, of "bsize b" ?n]
  obtain a w1 where 1: "benchWrite (bsize b) ?n testDir w0 = (Inr a, w1)" "workspace_ok testDir w1"
    "console w1 = console w0" "latency w1 = latency w0"
    by (simp add: perform_all_fields)
  define w1' where "w1' = w1\<lparr>console := console w1 @ [WriteAvg a]\<rparr>"
  have ok1: "workspace_ok testDir w1'" using 1(2) by (simp add: w1'_def workspace_ok_console)
  from benchRead_ok [OF ok1, of "bsize b" ?n]
  obtain r w2 where 2: "benchRead (bsize b) ?n testDir w1' = (Inr r, w2)" "workspace_ok testDir w2"
    "console w2 = console w1'" "latency w2 = latency w1'"
    by (simp add: perform_all_fields)
  define w2' where "w2' = w2\<lparr>console := console w2 @ [ReadAvg r]\<rparr>"
  have ok2: "workspace_ok testDir w2'" using 2(2) by (simp add: w2'_def workspace_ok_console)
  have lat: "latency w2' = latency w"
    by (simp add: w2'_def 2(4) w1'_def 1(4) w0_def)
  from benchStat_ok [OF ok2, of ?n]
  obtain w3 where 3: "benchStat ?n testDir w2' = (Inr (latency w (Stat (stat_path testDir))), w3)"
    "workspace_ok testDir w3" "console w3 = console w2'" "latency w3 = latency w2'"
    by (simp add: perform_all_fields lat sum_list_replicate_real ITERATIONS_def)
  define w3' where "w3' = w3\<lparr>console := console w3 @ [StatAvg (latency w (Stat (stat_path testDir)))]\<rparr>"
  have ok3: "workspace_ok testDir w3'" using 3(2) by (simp add: w3'_def workspace_ok_console)
  obtain u w4 where c: "cleanup testDir w3' = (u, w4)" by (cases "cleanup testDir w3'")
  from cleanup_ok [OF ok3] c
  have 4: "cleanup testDir w3' = (Inr (), w4)" "workspace_ok testDir w4"
    "\<not> list_ex (tmp_file testDir) (nodes w4)" "console w4 = console w3'" "latency w4 = latency w3'"
    by simp_all
  have run: "single_bucket b w = (Inr (), w4\<lparr>console := console w4 @ [Fixed 88]\<rparr>)"
    unfolding single_bucket_def
    using 1(1) 2(1) 3(1) 4(1)
    by (simp add: then_io_def bind_io_def console_log_apply w0_def [symmetric] w1'_def [symmetric]
        w2'_def [symmetric] w3'_def [symmetric])
  have "console w4 = console w @ [Testing (bname b) ?n, WriteAvg a, ReadAvg r,
      StatAvg (latency w (Stat (stat_path testDir)))]"
    by (simp add: 4(4) w3'_def 3(3) w2'_def 2(3) w1'_def 1(3) w0_def)
  moreover have "latency w4 = latency w"
    by (simp add: 4(5) w3'_def 3(4) lat)
  ultimately show ?thesis
    unfolding run using 4(2) 4(3) by (simp add: workspace_ok_console)
qed

lemma absent_when_no_tmp_file:
  assumes "workspace_ok dir w" "\<not> list_ex (tmp_file dir) (nodes w)"
    and "is_child dir p" "endsWith (basename p) ''.tmp''"
  shows "map_of (nodes w) p = None"
proof (rule ccontr)
  assume "map_of (nodes w) p \<noteq> None"
  then obtain n where n: "(p, n) \<in> set (nodes w)" by (auto dest: map_of_SomeD)
  with assms(1,3) have "kind n = RegularFile" by (auto simp: workspace_ok_def list_all_iff)
  with assms(3,4) have "tmp_file dir (p, n)" by (simp add: tmp_file_def)
  with n assms(2) show False by (auto simp: list_ex_iff)
qed

text \<open>
  C3. In a healthy workspace, for every byte count \<open>sz\<close>, the write benchmark with 100
  iterations writes one payload of \<open>sz\<close> zero bytes to the 100 distinct paths
  \<^verbatim>\<open>write_0.tmp\<close> to \<^verbatim>\<open>write_99.tmp\<close> of the directory, in order and nothing else; each
  of the files holds the \<open>sz\<close> zero bytes, right after the write that creates it and
  when the benchmark returns, and no other path has changed; the value
  returned is the elapsed time divided by 100; and none of the 100 files is left after
  the cleanup that follows, be it called at once or, as the script does, at the end of
  the pass over the bucket.
\<close>

theorem benchWrite_hundred_files:
  assumes "workspace_ok dir w"
  shows "fst (benchWrite sz 100 dir w) = Inr ((now (snd (benchWrite sz 100 dir w)) - now w) / 100) \<and>
    performed (snd (benchWrite sz 100 dir w)) =
      performed w @ map (\<lambda>i. WriteFile (write_path dir i) (replicate sz 0)) [0..<100] \<and>
    distinct (map (write_path dir) [0..<100]) \<and>
    (\<forall>i<100. basename (write_path dir i) = ''write_'' @ show_nat i @ ''.tmp'' \<and>
       map_of (nodes (snd (benchWrite sz 100 dir w))) (write_path dir i) = Some (file_node (replicate sz 0)) \<and>
       length (bytes (file_node (replicate sz 0))) = sz) \<and>
    (\<forall>k<100. map_of (nodes (snd (for_each [0..<Suc k]
                         (\<lambda>i. Deno_writeFile (write_path dir i) (replicate sz 0)) w)))
               (write_path dir k) = Some (file_node (replicate sz 0))) \<and>
    (\<forall>q. q \<notin> write_path dir ` {..<100} \<longrightarrow>
       map_of (nodes (snd (benchWrite sz 100 dir w))) q = map_of (nodes w) q) \<and>
    fst (cleanup dir (snd (benchWrite sz 100 dir w))) = Inr () \<and>
    (\<forall>i<100. map_of (nodes (snd (cleanup dir (snd (benchWrite sz 100 dir w))))) (write_path dir i) = None) \<and>
    (\<forall>b v. workspace_ok testDir v \<longrightarrow>
       fst (single_bucket b v) = Inr () \<and>
       (\<forall>i<100. map_of (nodes (snd (single_bucket b v))) (write_path testDir i) = None))"
proof -
  let ?ps = "map (write_path dir) [0..<100]"
  let ?ops = "map (\<lambda>p. WriteFile p (replicate sz 0)) ?ps"
  let ?w' = "(perform_all ?ops w)\<lparr>nodes := put_all ?ps (file_node (replicate sz 0)) (nodes w)\<rparr>"
  from benchWrite_ok [OF assms, of sz 100]
  have run: "benchWrite sz 100 dir w = (Inr (sum_list (map (latency w) ?ops) / 100), ?w')"
    and ok: "workspace_ok dir ?w'"
    by simp_all
  have t: "now ?w' - now w = sum_list (map (latency w) ?ops)"
    by (simp add: perform_all_fields)
  have 1: "fst (benchWrite sz 100 dir w) = Inr ((now (snd (benchWrite sz 100 dir w)) - now w) / 100)"
    unfolding run fst_conv snd_conv t ..
  have 2: "performed (snd (benchWrite sz 100 dir w)) =
      performed w @ map (\<lambda>i. WriteFile (write_path dir i) (replicate sz 0)) [0..<100]"
    unfolding run by (simp add: perform_all_fields comp_def)
  have 3: "\<forall>i<100. basename (write_path dir i) = ''write_'' @ show_nat i @ ''.tmp'' \<and>
       map_of (nodes (snd (benchWrite sz 100 dir w))) (write_path dir i) = Some (file_node (replicate sz 0)) \<and>
       length (bytes (file_node (replicate sz 0))) = sz"
    unfolding run by (simp add: basename_write_path map_of_put_all file_node_def)
  have 4: "\<forall>q. q \<notin> write_path dir ` {..<100} \<longrightarrow>
       map_of (nodes (snd (benchWrite sz 100 dir w))) q = map_of (nodes w) q"
    unfolding run by (auto simp: map_of_put_all)
  from cleanup_ok [OF ok]
  have c: "fst (cleanup dir ?w') = Inr ()" "workspace_ok dir (snd (cleanup dir ?w'))"
    "\<not> list_ex (tmp_file dir) (nodes (snd (cleanup dir ?w')))"
    by simp_all
  have 5: "\<forall>i<100. map_of (nodes (snd (cleanup dir (snd (benchWrite sz 100 dir w))))) (write_path dir i) = None"
    unfolding run snd_conv
    using absent_when_no_tmp_file [OF c(2) c(3)] good_write_path [of dir] write_path_tmp [of dir]
    by (simp add: good_path_def)
  have 6: "\<forall>b v. workspace_ok testDir v \<longrightarrow>
       fst (single_bucket b v) = Inr () \<and>
       (\<forall>i<100. map_of (nodes (snd (single_bucket b v))) (write_path testDir i) = None)"
  proof (intro allI impI)
    fix b v assume v: "workspace_ok testDir v"
    from single_bucket_ok [OF v, of b]
    have s: "fst (single_bucket b v) = Inr ()" "workspace_ok testDir (snd (single_bucket b v))"
      "\<not> list_ex (tmp_file testDir) (nodes (snd (single_bucket b v)))"
      by auto
    show "fst (single_bucket b v) = Inr () \<and>
       (\<forall>i<100. map_of (nodes (snd (single_bucket b v))) (write_path testDir i) = None)"
      using s(1) absent_when_no_tmp_file [OF s(2) s(3)] good_write_path [of testDir]
        write_path_tmp [of testDir]
      by (simp add: good_path_def)
  qed
  have 7: "\<forall>k<100. map_of (nodes (snd (for_each [0..<Suc k]
                         (\<lambda>i. Deno_writeFile (write_path dir i) (replicate sz 0)) w)))
               (write_path dir k) = Some (file_node (replicate sz 0))"
  proof (intro allI impI)
    fix k :: nat
    let ?qs = "map (write_path dir) [0..<Suc k]"
    have "\<forall>p\<in>set ?qs. good_path dir p" by (simp add: good_write_path)
    from write_all_ok [OF assms this, of "replicate sz 0"]
    have "for_each [0..<Suc k] (\<lambda>i. Deno_writeFile (write_path dir i) (replicate sz 0)) w =
      (Inr (), (perform_all (map (\<lambda>p. WriteFile p (replicate sz 0)) ?qs) w)
               \<lparr>nodes := put_all ?qs (file_node (replicate sz 0)) (nodes w)\<rparr>)"
      by (simp add: for_each_map del: upt_Suc)
    moreover have "write_path dir k \<in> set ?qs" by simp
    ultimately show "map_of (nodes (snd (for_each [0..<Suc k]
                         (\<lambda>i. Deno_writeFile (write_path dir i) (replicate sz 0)) w)))
               (write_path dir k) = Some (file_node (replicate sz 0))"
      by (simp add: map_of_put_all del: upt_Suc set_map set_upt)
  qed
  from 1 2 3 4 5 6 7 c(1) show ?thesis
    unfolding run snd_conv by (simp add: distinct_write_paths del: upt_Suc)
qed

lemma empty_workspace_ok: "workspace_ok ''./d'' (empty_workspace ''./d'')"
  by (simp add: workspace_ok_def empty_workspace_def node_eval is_child_def basename_def)

text \<open>
  C3 on the empty workspace \<^verbatim>\<open>./d\<close> with the bucket of 1024 bytes, every operation
  taking one millisecond: the mean is 1, \<^verbatim>\<open>write_0.tmp\<close> and \<^verbatim>\<open>write_99.tmp\<close> hold 1024
  bytes and are gone after cleanup.
\<close>

theorem benchWrite_hundred_files_witness:
  "workspace_ok ''./d'' (empty_workspace ''./d'') \<and>
   length (performed (snd (benchWrite 1024 100 ''./d'' (empty_workspace ''./d'')))) = 100 \<and>
   map_option (length \<circ> bytes)
     (map_of (nodes (snd (benchWrite 1024 100 ''./d'' (empty_workspace ''./d'')))) ''./d/write_99.tmp'')
     = Some 1024 \<and>
   map_of (nodes (snd (cleanup ''./d'' (snd (benchWrite 1024 100 ''./d'' (empty_workspace ''./d''))))))
      ''./d/write_0.tmp'' = None \<and>
   map_of (nodes (snd (cleanup ''./d'' (snd (benchWrite 1024 100 ''./d'' (empty_workspace ''./d''))))))
      ''./d/write_99.tmp'' = None"
proof -
  have p: "write_path ''./d'' 0 = ''./d/write_0.tmp''" "write_path ''./d'' 99 = ''./d/write_99.tmp''"
    by (simp_all add: write_path_def show_nat.simps digit_char_def)
  have e: "performed (empty_workspace ''./d'') = []"
    by (simp add: empty_workspace_def world_of_def)
  from benchWrite_hundred_files [OF empty_workspace_ok, of 1024]
  have "performed (snd (benchWrite 1024 100 ''./d'' (empty_workspace ''./d''))) =
      performed (empty_workspace ''./d'') @ map (\<lambda>i. WriteFile (write_path ''./d'' i) (replicate 1024 0)) [0..<100]"
    and "\<forall>i<100. map_of (nodes (snd (benchWrite 1024 100 ''./d'' (empty_workspace ''./d''))))
          (write_path ''./d'' i) = Some (file_node (replicate 1024 0))"
    and "\<forall>i<100. map_of (nodes (snd (cleanup ''./d'' (snd (benchWrite 1024 100 ''./d'' (empty_workspace ''./d''))))))
          (write_path ''./d'' i) = None"
    by simp_all
  from this(1) this(2) [rule_format, of 99] this(3) [rule_format, of 0] this(3) [rule_format, of 99]
  show ?thesis
    by (simp add: p e empty_workspace_ok file_node_def)
qed

text \<open>
  C4. In a healthy workspace, for every byte count \<open>sz\<close>, the read benchmark with 100
  iterations first performs the 100 setup writes of the same payload to the 100
  distinct paths \<^verbatim>\<open>read_0.tmp\<close> to \<^verbatim>\<open>read_99.tmp\<close>; the world \<open>ws\<close> in which the clock is
  first read is the one the setup loop leaves. From there it performs the 100 reads, in
  order, and nothing else. The value returned is the time elapsed since \<open>ws\<close> divided by
  100, which is the sum of the latencies of the 100 reads divided by 100: the latency of
  no write occurs in it.
\<close>

theorem benchRead_times_reads_only:
  assumes "workspace_ok dir w"
  shows "fst (for_each [0..<100] (\<lambda>i. Deno_writeFile (read_path dir i) (replicate sz 0)) w) = Inr () \<and>
    performed (snd (for_each [0..<100] (\<lambda>i. Deno_writeFile (read_path dir i) (replicate sz 0)) w)) =
      performed w @ map (\<lambda>i. WriteFile (read_path dir i) (replicate sz 0)) [0..<100] \<and>
    distinct (map (read_path dir) [0..<100]) \<and>
    performed (snd (benchRead sz 100 dir w)) =
      performed (snd (for_each [0..<100] (\<lambda>i. Deno_writeFile (read_path dir i) (replicate sz 0)) w))
        @ map (\<lambda>i. ReadFile (read_path dir i)) [0..<100] \<and>
    fst (benchRead sz 100 dir w) =
      Inr ((now (snd (benchRead sz 100 dir w))
            - now (snd (for_each [0..<100] (\<lambda>i. Deno_writeFile (read_path dir i) (replicate sz 0)) w)))
           / 100) \<and>
    fst (benchRead sz 100 dir w) =
      Inr ((\<Sum>i\<leftarrow>[0..<100]. latency w (ReadFile (read_path dir i))) / 100)"
proof -
  let ?ps = "map (read_path dir) [0..<100]"
  let ?ws = "map (\<lambda>p. WriteFile p (replicate sz 0)) ?ps"
  let ?w1 = "(perform_all ?ws w)\<lparr>nodes := put_all ?ps (file_node (replicate sz 0)) (nodes w)\<rparr>"
  let ?w2 = "(perform_all (?ws @ map ReadFile ?ps) w)\<lparr>nodes := put_all ?ps (file_node (replicate sz 0)) (nodes w)\<rparr>"
  have g: "\<forall>p\<in>set ?ps. good_path dir p" by (simp add: good_read_path)
  have writes: "for_each [0..<100] (\<lambda>i. Deno_writeFile (read_path dir i) (replicate sz 0)) w = (Inr (), ?w1)"
    using write_all_ok [OF assms g, of "replicate sz 0"] by (simp add: for_each_map)
  from benchRead_ok [OF assms, of sz 100]
  have run: "benchRead sz 100 dir w = (Inr (sum_list (map (latency w) (map ReadFile ?ps)) / 100), ?w2)"
    by simp
  have t: "now ?w2 - now ?w1 = sum_list (map (latency w) (map ReadFile ?ps))"
    by (simp add: perform_all_fields)
  have s: "sum_list (map (latency w) (map ReadFile ?ps)) = (\<Sum>i\<leftarrow>[0..<100]. latency w (ReadFile (read_path dir i)))"
    by (simp add: comp_def)
  have 1: "fst (benchRead sz 100 dir w) =
      Inr ((now (snd (benchRead sz 100 dir w))
            - now (snd (for_each [0..<100] (\<lambda>i. Deno_writeFile (read_path dir i) (replicate sz 0)) w)))
           / 100)"
    unfolding run writes fst_conv snd_conv t ..
  have 2: "fst (benchRead sz 100 dir w) = Inr ((\<Sum>i\<leftarrow>[0..<100]. latency w (ReadFile (read_path dir i))) / 100)"
    unfolding run fst_conv s ..
  have 3: "performed (snd (benchRead sz 100 dir w)) =
      performed (snd (for_each [0..<100] (\<lambda>i. Deno_writeFile (read_path dir i) (replicate sz 0)) w))
        @ map (\<lambda>i. ReadFile (read_path dir i)) [0..<100]"
    unfolding run writes by (simp add: perform_all_fields comp_def)
  have 4: "performed (snd (for_each [0..<100] (\<lambda>i. Deno_writeFile (read_path dir i) (replicate sz 0)) w)) =
      performed w @ map (\<lambda>i. WriteFile (read_path dir i) (replicate sz 0)) [0..<100]"
    unfolding writes by (simp add: perform_all_fields comp_def)
  from 1 2 3 4 show ?thesis
    by (simp add: writes distinct_read_paths)
qed

text \<open>
  C4 on the empty workspace \<^verbatim>\<open>./d\<close>, every operation taking one millisecond: 200
  operations are performed, and the mean is 1, not 2.
\<close>

theorem benchRead_times_reads_only_witness:
  "workspace_ok ''./d'' (empty_workspace ''./d'') \<and>
   length (performed (snd (benchRead 1024 100 ''./d'' (empty_workspace ''./d'')))) = 200 \<and>
   fst (benchRead 1024 100 ''./d'' (empty_workspace ''./d'')) = Inr 1"
proof -
  have e: "performed (empty_workspace ''./d'') = []" "latency (empty_workspace ''./d'') = (\<lambda>op. 1)"
    by (simp_all add: empty_workspace_def world_of_def)
  have c: "(\<Sum>i\<leftarrow>[0..<100]. (1::real)) = 100"
    by (simp add: sum_list_triv)
  note t = benchRead_times_reads_only [OF empty_workspace_ok, of 1024]
  note setup_ops = t [THEN conjunct2, THEN conjunct1]
  note all_ops = t [THEN conjunct2, THEN conjunct2, THEN conjunct2, THEN conjunct1]
  note mean = t [THEN conjunct2, THEN conjunct2, THEN conjunct2, THEN conjunct2, THEN conjunct2]
  have "length (performed (snd (benchRead 1024 100 ''./d'' (empty_workspace ''./d'')))) = 200"
    unfolding all_ops setup_ops by (simp add: e)
  moreover have "fst (benchRead 1024 100 ''./d'' (empty_workspace ''./d'')) = Inr 1"
    unfolding mean by (simp add: e c)
  ultimately show ?thesis
    using empty_workspace_ok by simp
qed

text \<open>
  C10. The stat benchmark takes no byte count. In a healthy workspace, with 100
  iterations, it writes the three bytes 1, 2, 3 to \<^verbatim>\<open>stat.tmp\<close>, queries that path 100
  times and performs nothing else; the value returned is the latency of one such query.
  From any two healthy worlds (the states two buckets reach it in) it performs the same
  operations, and returns the same value when the latencies are the same. In the pass of
  the script over a bucket \<open>b\<close>, the line printed for the stat benchmark carries that
  value, in which \<open>b\<close> does not occur.
\<close>

theorem benchStat_independent_of_bucket:
  assumes "workspace_ok dir w" and "workspace_ok dir v"
  shows "performed (snd (benchStat 100 dir w)) =
      performed w @ WriteFile (stat_path dir) [1, 2, 3] # replicate 100 (Stat (stat_path dir)) \<and>
    map_of (nodes (snd (benchStat 100 dir w))) (stat_path dir) = Some (file_node [1, 2, 3]) \<and>
    length (bytes (file_node [1, 2, 3])) = 3 \<and>
    fst (benchStat 100 dir w) = Inr (latency w (Stat (stat_path dir))) \<and>
    drop (length (performed w)) (performed (snd (benchStat 100 dir w))) =
      drop (length (performed v)) (performed (snd (benchStat 100 dir v))) \<and>
    (if latency w = latency v then fst (benchStat 100 dir w) = fst (benchStat 100 dir v) else True) \<and>
    (\<forall>b u. workspace_ok testDir u \<longrightarrow>
       (\<exists>a r. console (snd (single_bucket b u)) =
          console u @ [Testing (bname b) ITERATIONS, WriteAvg a, ReadAvg r,
                       StatAvg (latency u (Stat (stat_path testDir))), Fixed 88]))"
proof -
  let ?p = "stat_path dir"
  have run: "benchStat 100 dir x =
      (Inr (latency x (Stat ?p)),
       (perform_all (WriteFile ?p [1, 2, 3] # replicate 100 (Stat ?p)) x)
       \<lparr>nodes := put ?p (file_node [1, 2, 3]) (nodes x)\<rparr>)" if "workspace_ok dir x" for x
    using benchStat_ok [OF that, of 100] by (simp add: sum_list_replicate_real)
  have "\<forall>b u. workspace_ok testDir u \<longrightarrow>
       (\<exists>a r. console (snd (single_bucket b u)) =
          console u @ [Testing (bname b) ITERATIONS, WriteAvg a, ReadAvg r,
                       StatAvg (latency u (Stat (stat_path testDir))), Fixed 88])"
    using single_bucket_ok by blast
  then show ?thesis
    unfolding run [OF assms(1)] run [OF assms(2)]
    by (simp add: perform_all_fields map_of_put file_node_def)
qed

text \<open>
  C10 on the empty workspace \<^verbatim>\<open>./d\<close> and on the mixed one without its directory entry,
  two different states with the same latencies: the same operations, the same value.
\<close>

theorem benchStat_independent_of_bucket_witness:
  "workspace_ok ''./d'' (empty_workspace ''./d'') \<and>
   workspace_ok ''./d'' (world_of [(''.'', dir_node), (''./d'', dir_node), (''./d/write_0.tmp'', file_node (replicate 4096 0))]) \<and>
   fst (benchStat 100 ''./d'' (empty_workspace ''./d'')) = Inr 1 \<and>
   fst (benchStat 100 ''./d'' (world_of [(''.'', dir_node), (''./d'', dir_node), (''./d/write_0.tmp'', file_node (replicate 4096 0))])) = Inr 1 \<and>
   performed (snd (benchStat 100 ''./d'' (world_of [(''.'', dir_node), (''./d'', dir_node), (''./d/write_0.tmp'', file_node (replicate 4096 0))]))) =
     WriteFile ''./d/stat.tmp'' [1, 2, 3] # replicate 100 (Stat ''./d/stat.tmp'')"
proof -
  let ?v = "world_of [(''.'', dir_node), (''./d'', dir_node), (''./d/write_0.tmp'', file_node (replicate 4096 0))]"
  have v: "workspace_ok ''./d'' ?v"
    by (simp add: workspace_ok_def node_eval is_child_def basename_def)
  have e: "latency (empty_workspace ''./d'') = (\<lambda>op. 1)" "latency ?v = (\<lambda>op. 1)" "performed ?v = []"
    by (simp_all add: empty_workspace_def world_of_def)
  from benchStat_independent_of_bucket [OF empty_workspace_ok v]
    benchStat_independent_of_bucket [OF v empty_workspace_ok]
  show ?thesis
    by (simp add: e v empty_workspace_ok stat_path_def)
qed

subsection \<open>The concurrent batch\<close>

lemma performed_writeFile: "performed (snd (Deno_writeFile p d w)) = performed w @ [WriteFile p d]"
  by (simp add: Deno_writeFile_def perform_fields Let_def split: option.splits)

lemma performed_readFile: "performed (snd (Deno_readFile p w)) = performed w @ [ReadFile p]"
  by (simp add: Deno_readFile_def perform_fields Let_def split: option.splits)

lemma performed_stat: "performed (snd (Deno_stat p w)) = performed w @ [Stat p]"
  by (simp add: Deno_stat_def perform_fields Let_def split: option.splits)

lemma chain_targets_own_path:
  "\<exists>ops. performed (snd (chain dir data i w)) = performed w @ ops \<and>
         (\<forall>op\<in>set ops. op_path op = concurrent_path dir i)"
proof -
  let ?p = "concurrent_path dir i"
  obtain r1 w1 where 1: "Deno_writeFile ?p data w = (r1, w1)" by (cases "Deno_writeFile ?p data w")
  obtain r2 w2 where 2: "Deno_readFile ?p w1 = (r2, w2)" by (cases "Deno_readFile ?p w1")
  obtain r3 w3 where 3: "Deno_stat ?p w2 = (r3, w3)" by (cases "Deno_stat ?p w2")
  have p1: "performed w1 = performed w @ [WriteFile ?p data]"
    using performed_writeFile [of ?p data w] 1 by simp
  have p2: "performed w2 = performed w1 @ [ReadFile ?p]"
    using performed_readFile [of ?p w1] 2 by simp
  have p3: "performed w3 = performed w2 @ [Stat ?p]"
    using performed_stat [of ?p w2] 3 by simp
  have "snd (chain dir data i w) = w1 \<or> snd (chain dir data i w) = w2 \<or> snd (chain dir data i w) = w3"
    using 1 2 3
    by (cases r1; cases r2; cases r3) (simp_all add: chain_def Let_def then_io_def bind_io_def return_io_def)
  then show ?thesis
    using p1 p2 p3 by auto
qed

lemma promise_all_targets:
  assumes "\<forall>m\<in>set ms. \<forall>w. \<exists>ops. performed (snd (m w)) = performed w @ ops \<and> (\<forall>op\<in>set ops. Q op)"
  shows "\<exists>ops. performed (snd (promise_all ms w)) = performed w @ ops \<and> (\<forall>op\<in>set ops. Q op)"
  using assms
proof (induction ms arbitrary: w)
  case Nil
  show ?case by (simp add: return_io_def)
next
  case (Cons m ms)
  obtain r w1 where m: "m w = (r, w1)" by (cases "m w")
  from Cons.prems m obtain ops1 where 1: "performed w1 = performed w @ ops1" "\<forall>op\<in>set ops1. Q op"
    by (metis list.set_intros(1) snd_conv)
  from Cons.IH [of w1] Cons.prems obtain ops2 where
    2: "performed (snd (promise_all ms w1)) = performed w1 @ ops2" "\<forall>op\<in>set ops2. Q op"
    by auto
  have "snd (promise_all (m # ms) w) = snd (promise_all ms w1)"
    using m by (cases r) (simp_all split: prod.splits sum.splits)
  then have "performed (snd (promise_all (m # ms) w)) = performed w @ (ops1 @ ops2)"
    using 1(1) 2(1) by simp
  moreover have "\<forall>op\<in>set (ops1 @ ops2). Q op" using 1(2) 2(2) by auto
  ultimately show ?case by blast
qed

subsection \<open>Computations that keep the workspace healthy\<close>

lemma succeeds_inD:
  "succeeds_in I m \<Longrightarrow> I w \<Longrightarrow> \<exists>x w'. m w = (Inr x, w') \<and> I w'"
  by (cases "m w") (auto simp: succeeds_in_def)

lemma succeeds_in_bind:
  assumes "succeeds_in I m" "\<And>x. succeeds_in I (f x)"
  shows "succeeds_in I (bind_io m f)"
  unfolding succeeds_in_def
proof (intro allI impI)
  fix w assume "I w"
  from succeeds_inD [OF assms(1) this] obtain x w' where 1: "m w = (Inr x, w')" "I w'" by blast
  from succeeds_inD [OF assms(2) 1(2), of x] obtain y w'' where "f x w' = (Inr y, w'')" "I w''"
    by blast
  with 1 show "(\<exists>y. fst (bind_io m f w) = Inr y) \<and> I (snd (bind_io m f w))"
    by (simp add: bind_io_def)
qed

lemma succeeds_in_then:
  "succeeds_in I m \<Longrightarrow> succeeds_in I k \<Longrightarrow> succeeds_in I (then_io m k)"
  unfolding then_io_def by (rule succeeds_in_bind)

lemma succeeds_in_return: "succeeds_in I (return_io x)"
  by (simp add: succeeds_in_def return_io_def)

lemma succeeds_in_for_each:
  "(\<And>x. succeeds_in I (body x)) \<Longrightarrow> succeeds_in I (for_each xs body)"
  by (induction xs) (simp_all add: succeeds_in_return succeeds_in_bind)

lemma succeeds_in_promise_all:
  assumes "\<And>m. m \<in> set ms \<Longrightarrow> succeeds_in I m"
  shows "succeeds_in I (promise_all ms)"
  using assms
proof (induction ms)
  case Nil
  show ?case by (simp add: succeeds_in_return)
next
  case (Cons m ms)
  have rest: "succeeds_in I (promise_all ms)" using Cons by simp
  have first: "succeeds_in I m" using Cons.prems by simp
  show ?case
    unfolding succeeds_in_def
  proof (intro allI impI)
    fix w assume "I w"
    from succeeds_inD [OF first this] obtain x w' where 1: "m w = (Inr x, w')" "I w'" by blast
    from succeeds_inD [OF rest 1(2)] obtain xs w'' where "promise_all ms w' = (Inr xs, w'')" "I w''"
      by blast
    with 1 show "(\<exists>y. fst (promise_all (m # ms) w) = Inr y) \<and> I (snd (promise_all (m # ms) w))"
      by simp
  qed
qed

text \<open>Computations that do not touch the files keep every property of the files.\<close>

lemma succeeds_in_nodes:
  assumes "\<And>w. \<exists>x. fst (m w) = Inr x" "\<And>w. nodes (snd (m w)) = nodes w"
  shows "succeeds_in (workspace_ok dir) m"
  unfolding succeeds_in_def
  using assms workspace_ok_fields [of "snd (m _)" _ dir] by blast

lemma succeeds_in_console_log: "succeeds_in (workspace_ok dir) (console_log l)"
  by (rule succeeds_in_nodes) (simp_all add: console_log_def)

lemma succeeds_in_log_all: "succeeds_in (workspace_ok dir) (log_all ls)"
  unfolding log_all_def by (rule succeeds_in_for_each) (rule succeeds_in_console_log)

lemma succeeds_in_performance_now: "succeeds_in (workspace_ok dir) performance_now"
  by (rule succeeds_in_nodes) (simp_all add: performance_now_def)

lemma nodes_readTextFile: "nodes (snd (Deno_readTextFile p w)) = nodes w"
  by (simp add: Deno_readTextFile_def Deno_readFile_def bind_io_def return_io_def perform_def
      Let_def split: option.splits)

lemma nodes_kernel_probe: "nodes (snd (kernel_probe os w)) = nodes w"
proof (cases "Deno_readTextFile ''/proc/sys/kernel/osrelease'' w")
  case (Pair r w')
  then have "nodes w' = nodes w"
    using nodes_readTextFile [of "''/proc/sys/kernel/osrelease''" w] by simp
  with Pair show ?thesis
    by (cases r)
      (simp_all add: kernel_probe_def try_catch_def bind_io_def then_io_def console_log_def
        return_io_def)
qed

lemma succeeds_in_kernel_probe: "succeeds_in (workspace_ok dir) (kernel_probe os)"
  using kernel_probe_outcome by (intro succeeds_in_nodes) (simp_all add: nodes_kernel_probe)

lemma succeeds_in_report_environment: "succeeds_in (workspace_ok dir) (report_environment os)"
  unfolding report_environment_def
  by (intro succeeds_in_then succeeds_in_log_all succeeds_in_kernel_probe)

lemma succeeds_in_ensure_workspace: "succeeds_in (workspace_ok testDir) ensure_workspace"
  unfolding succeeds_in_def
proof (intro allI impI)
  fix w assume ok: "workspace_ok testDir w"
  then obtain d where "map_of (nodes w) testDir = Some d"
    by (auto simp: workspace_ok_def split: option.splits)
  then have "Deno_mkdir testDir w = (Inl (FsError AlreadyExists), perform (Mkdir testDir) w)"
    by (simp add: Deno_mkdir_def perform_fields Let_def)
  then have "ensure_workspace w = (Inr (), perform (Mkdir testDir) w)"
    by (simp add: ensure_workspace_def try_catch_def return_io_def)
  then show "(\<exists>x. fst (ensure_workspace w) = Inr x) \<and> workspace_ok testDir (snd (ensure_workspace w))"
    using ok workspace_ok_fields [of "perform (Mkdir testDir) w" w testDir]
    by (simp add: perform_fields)
qed

lemma succeeds_in_single_bucket: "succeeds_in (workspace_ok testDir) (single_bucket b)"
  unfolding succeeds_in_def using single_bucket_ok [of _ b] by blast

lemma succeeds_in_cleanup: "succeeds_in (workspace_ok dir) (cleanup dir)"
  unfolding succeeds_in_def using cleanup_ok [of dir] by blast

lemma succeeds_in_writeFile:
  "good_path dir p \<Longrightarrow> succeeds_in (workspace_ok dir) (Deno_writeFile p d)"
  unfolding succeeds_in_def
proof (intro allI impI)
  fix w assume g: "good_path dir p" and ok: "workspace_ok dir w"
  have "workspace_ok dir (w\<lparr>nodes := put p (file_node d) (nodes w)\<rparr>)"
    using ok g by (simp add: workspace_ok_put good_path_def)
  then have "workspace_ok dir ((perform (WriteFile p d) w)\<lparr>nodes := put p (file_node d) (nodes w)\<rparr>)"
    using workspace_ok_fields [of "(perform (WriteFile p d) w)\<lparr>nodes := put p (file_node d) (nodes w)\<rparr>"
        "w\<lparr>nodes := put p (file_node d) (nodes w)\<rparr>" dir]
    by simp
  then show "(\<exists>x. fst (Deno_writeFile p d w) = Inr x) \<and> workspace_ok dir (snd (Deno_writeFile p d w))"
    using Deno_writeFile_ok [OF ok g, of d] by simp
qed

lemma chain_ok:
  assumes "workspace_ok dir w"
  shows "fst (chain dir data i w) = Inr () \<and> workspace_ok dir (snd (chain dir data i w))"
proof -
  let ?p = "concurrent_path dir i"
  let ?w1 = "(perform (WriteFile ?p data) w)\<lparr>nodes := put ?p (file_node data) (nodes w)\<rparr>"
  have 1: "Deno_writeFile ?p data w = (Inr (), ?w1)"
    using assms good_concurrent_path by (rule Deno_writeFile_ok)
  have m: "map_of (nodes ?w1) ?p = Some (file_node data)"
    by (simp add: map_of_put)
  have 2: "Deno_readFile ?p ?w1 = (Inr (bytes (file_node data)), perform (ReadFile ?p) ?w1)"
    using m by (rule Deno_readFile_ok) (simp_all add: file_node_def)
  have "map_of (nodes (perform (ReadFile ?p) ?w1)) ?p = Some (file_node data)"
    using m by (simp add: perform_fields)
  then have 3: "Deno_stat ?p (perform (ReadFile ?p) ?w1) =
      (Inr \<lparr>info_isFile = (kind (file_node data) = RegularFile), info_size = length (bytes (file_node data))\<rparr>,
       perform (Stat ?p) (perform (ReadFile ?p) ?w1))"
    by (rule Deno_stat_ok) (simp add: file_node_def)
  have run: "chain dir data i w = (Inr (), perform (Stat ?p) (perform (ReadFile ?p) ?w1))"
    using 1 2 3 by (simp add: chain_def Let_def then_io_def bind_io_def return_io_def)
  have "workspace_ok dir (snd (Deno_writeFile ?p data w))"
    using succeeds_in_writeFile [OF good_concurrent_path, of dir i data] assms
    by (simp add: succeeds_in_def)
  then have "workspace_ok dir ?w1" using 1 by simp
  then have "workspace_ok dir (perform (Stat ?p) (perform (ReadFile ?p) ?w1))"
    using workspace_ok_fields [of "perform (Stat ?p) (perform (ReadFile ?p) ?w1)" ?w1 dir]
    by (simp add: perform_fields)
  with run show ?thesis by simp
qed

lemma succeeds_in_benchConcurrent: "succeeds_in (workspace_ok dir) (benchConcurrent sz n dir)"
proof -
  have "succeeds_in (workspace_ok dir) (promise_all (map (chain dir (replicate sz 0)) [0..<n]))"
    by (rule succeeds_in_promise_all) (auto simp: succeeds_in_def chain_ok)
  then show ?thesis
    unfolding benchConcurrent_def Let_def
    by (intro succeeds_in_bind succeeds_in_then succeeds_in_performance_now succeeds_in_return)
qed

lemma succeeds_in_concurrent_bucket: "succeeds_in (workspace_ok testDir) (concurrent_bucket b)"
  unfolding concurrent_bucket_def
  by (intro succeeds_in_bind succeeds_in_then succeeds_in_console_log succeeds_in_benchConcurrent
      succeeds_in_cleanup)

text \<open>The script up to the scenario: it gets there, in a healthy workspace.\<close>

lemma main_reaches_scenario:
  assumes "workspace_ok testDir w"
  shows "\<exists>v. workspace_ok testDir v \<and>
    main os JSON_parse w = then_io (scenario_phase JSON_parse) teardown v"
proof -
  let ?before =
    "then_io (report_environment os)
    (then_io ensure_workspace
    (then_io (log_all (map Fixed [67, 68, 69]))
    (then_io (for_each SIZES single_bucket)
    (then_io (log_all (map Fixed [91, 92, 93]))
      (for_each SIZES concurrent_bucket)))))"
  have "succeeds_in (workspace_ok testDir) ?before"
    by (intro succeeds_in_then succeeds_in_report_environment succeeds_in_ensure_workspace
        succeeds_in_log_all succeeds_in_for_each succeeds_in_single_bucket
        succeeds_in_concurrent_bucket)
  from succeeds_inD [OF this assms] obtain x v where v: "?before w = (Inr x, v)" "workspace_ok testDir v"
    by blast
  have "main os JSON_parse w = then_io ?before (then_io (scenario_phase JSON_parse) teardown) w"
    by (simp add: main_def then_io_def bind_io_def split: prod.splits sum.splits)
  with v show ?thesis
    by (auto simp: then_io_Inr)
qed

subsection \<open>What a batch does to each path\<close>

lemma chain_ops_targets: "\<forall>op\<in>set (chain_ops dir data i). op_path op = concurrent_path dir i"
  by (simp add: chain_ops_def)

lemma chain_trace:
  "\<exists>n. 1 \<le> n \<and> n \<le> 3 \<and>
       performed (snd (chain dir data i w)) = performed w @ take n (chain_ops dir data i)"
proof -
  let ?p = "concurrent_path dir i"
  obtain r1 w1 where 1: "Deno_writeFile ?p data w = (r1, w1)" by (cases "Deno_writeFile ?p data w")
  obtain r2 w2 where 2: "Deno_readFile ?p w1 = (r2, w2)" by (cases "Deno_readFile ?p w1")
  obtain r3 w3 where 3: "Deno_stat ?p w2 = (r3, w3)" by (cases "Deno_stat ?p w2")
  have p1: "performed w1 = performed w @ take 1 (chain_ops dir data i)"
    using performed_writeFile [of ?p data w] 1 by (simp add: chain_ops_def)
  have p2: "performed w2 = performed w @ take 2 (chain_ops dir data i)"
    using performed_readFile [of ?p w1] 2 p1 by (simp add: chain_ops_def)
  have p3: "performed w3 = performed w @ take 3 (chain_ops dir data i)"
    using performed_stat [of ?p w2] 3 p2 by (simp add: chain_ops_def)
  have "snd (chain dir data i w) = w1 \<or> snd (chain dir data i w) = w2 \<or> snd (chain dir data i w) = w3"
    using 1 2 3
    by (cases r1; cases r2; cases r3) (simp_all add: chain_def Let_def then_io_def bind_io_def return_io_def)
  then consider "snd (chain dir data i w) = w1" | "snd (chain dir data i w) = w2"
    | "snd (chain dir data i w) = w3" by blast
  then show ?thesis
  proof cases
    case 1
    with p1 have "1 \<le> (1::nat) \<and> (1::nat) \<le> 3 \<and>
       performed (snd (chain dir data i w)) = performed w @ take 1 (chain_ops dir data i)" by simp
    then show ?thesis by (rule exI)
  next
    case 2
    with p2 have "1 \<le> (2::nat) \<and> (2::nat) \<le> 3 \<and>
       performed (snd (chain dir data i w)) = performed w @ take 2 (chain_ops dir data i)" by simp
    then show ?thesis by (rule exI)
  next
    case 3
    with p3 have "1 \<le> (3::nat) \<and> (3::nat) \<le> 3 \<and>
       performed (snd (chain dir data i w)) = performed w @ take 3 (chain_ops dir data i)" by simp
    then show ?thesis by (rule exI)
  qed
qed

lemma snd_promise_all_Cons: "snd (promise_all (m # ms) w) = snd (promise_all ms (snd (m w)))"
  by (cases "m w") (simp split: prod.splits sum.splits)

lemma batch_trace:
  assumes "distinct ks"
  shows "\<exists>n. (\<forall>k. 1 \<le> n k \<and> n k \<le> 3) \<and>
     performed (snd (promise_all (map (chain dir data) ks) w)) =
       performed w @ concat (map (\<lambda>k. take (n k) (chain_ops dir data k)) ks)"
  using assms
proof (induction ks arbitrary: w)
  case Nil
  show ?case
    by (rule exI [of _ "\<lambda>k. Suc 0"]) (simp add: return_io_def)
next
  case (Cons k ks)
  let ?w1 = "snd (chain dir data k w)"
  from chain_trace [of dir data k w] obtain n0 where
    n0: "1 \<le> n0" "n0 \<le> 3" "performed ?w1 = performed w @ take n0 (chain_ops dir data k)"
    by blast
  from Cons.prems have d: "distinct ks" and nk: "k \<notin> set ks" by simp_all
  from Cons.IH [OF d, of ?w1] obtain n where
    n: "\<forall>j. 1 \<le> n j \<and> n j \<le> 3"
       "performed (snd (promise_all (map (chain dir data) ks) ?w1)) =
          performed ?w1 @ concat (map (\<lambda>j. take (n j) (chain_ops dir data j)) ks)"
    by blast
  let ?n = "n(k := n0)"
  have same: "map (\<lambda>j. take (?n j) (chain_ops dir data j)) ks
      = map (\<lambda>j. take (n j) (chain_ops dir data j)) ks"
    using nk by (intro map_cong) auto
  have "performed (snd (promise_all (map (chain dir data) (k # ks)) w)) =
       performed w @ concat (map (\<lambda>j. take (?n j) (chain_ops dir data j)) (k # ks))"
    using n0(3) n(2) by (simp only: list.map snd_promise_all_Cons concat.simps same) simp
  moreover have "\<forall>j. 1 \<le> ?n j \<and> ?n j \<le> 3" using n(1) n0 by simp
  ultimately show ?case by blast
qed

lemma filter_concat_pick:
  assumes "distinct ks" "\<And>j. filter P (h j) = (if j = k then h j else [])"
  shows "filter P (concat (map h ks)) = (if k \<in> set ks then h k else [])"
  using assms(1) by (induction ks) (auto simp: assms(2))

lemma filter_chain_ops:
  "filter (\<lambda>op. op_path op = concurrent_path dir k) (take n (chain_ops dir data j))
     = (if j = k then take n (chain_ops dir data j) else [])"
proof (cases "j = k")
  case True
  have "\<forall>op\<in>set (take n (chain_ops dir data j)). op_path op = concurrent_path dir k"
    using chain_ops_targets [of dir data j] True by (auto dest: in_set_takeD)
  then show ?thesis using True by (simp add: filter_id_conv)
next
  case False
  then have "concurrent_path dir j \<noteq> concurrent_path dir k"
    using concurrent_path_inj [of dir j k] by blast
  then have "\<forall>op\<in>set (take n (chain_ops dir data j)). op_path op \<noteq> concurrent_path dir k"
    using chain_ops_targets [of dir data j] by (auto dest: in_set_takeD)
  then show ?thesis using False by (simp add: filter_empty_conv)
qed

lemma performed_benchConcurrent:
  "performed (snd (benchConcurrent sz c dir w))
     = performed (snd (promise_all (map (chain dir (replicate sz 0)) [0..<c]) w))"
  by (simp add: benchConcurrent_def bind_io_def then_io_def performance_now_def return_io_def
      split: prod.splits sum.splits)

lemma nodes_benchConcurrent:
  "nodes (snd (benchConcurrent sz c dir w))
     = nodes (snd (promise_all (map (chain dir (replicate sz 0)) [0..<c]) w))"
  by (simp add: benchConcurrent_def bind_io_def then_io_def performance_now_def return_io_def
      split: prod.splits sum.splits)

text \<open>In a healthy workspace every chain runs to its end and leaves its file behind.\<close>

lemma chain_ok_trace:
  assumes "workspace_ok dir w"
  shows "performed (snd (chain dir data i w)) = performed w @ chain_ops dir data i \<and>
         nodes (snd (chain dir data i w)) = put (concurrent_path dir i) (file_node data) (nodes w)"
proof -
  let ?p = "concurrent_path dir i"
  let ?w1 = "(perform (WriteFile ?p data) w)\<lparr>nodes := put ?p (file_node data) (nodes w)\<rparr>"
  have 1: "Deno_writeFile ?p data w = (Inr (), ?w1)"
    using assms good_concurrent_path by (rule Deno_writeFile_ok)
  have m: "map_of (nodes ?w1) ?p = Some (file_node data)"
    by (simp add: map_of_put)
  have 2: "Deno_readFile ?p ?w1 = (Inr (bytes (file_node data)), perform (ReadFile ?p) ?w1)"
    using m by (rule Deno_readFile_ok) (simp_all add: file_node_def)
  have "map_of (nodes (perform (ReadFile ?p) ?w1)) ?p = Some (file_node data)"
    using m by (simp add: perform_fields)
  then have 3: "Deno_stat ?p (perform (ReadFile ?p) ?w1) =
      (Inr \<lparr>info_isFile = (kind (file_node data) = RegularFile), info_size = length (bytes (file_node data))\<rparr>,
       perform (Stat ?p) (perform (ReadFile ?p) ?w1))"
    by (rule Deno_stat_ok) (simp add: file_node_def)
  have run: "chain dir data i w = (Inr (), perform (Stat ?p) (perform (ReadFile ?p) ?w1))"
    using 1 2 3 by (simp add: chain_def Let_def then_io_def bind_io_def return_io_def)
  show ?thesis
    by (simp add: run perform_fields chain_ops_def)
qed

lemma batch_ok_trace:
  assumes "workspace_ok dir w"
  shows "performed (snd (promise_all (map (chain dir data) ks) w)) =
           performed w @ concat (map (chain_ops dir data) ks) \<and>
         nodes (snd (promise_all (map (chain dir data) ks) w)) =
           put_all (map (concurrent_path dir) ks) (file_node data) (nodes w)"
  using assms
proof (induction ks arbitrary: w)
  case Nil
  show ?case by (simp add: return_io_def put_all_Nil)
next
  case (Cons k ks)
  let ?w1 = "snd (chain dir data k w)"
  have ok: "workspace_ok dir ?w1" using chain_ok [OF Cons.prems, of data k] by simp
  from Cons.IH [OF ok] chain_ok_trace [OF Cons.prems, of data k]
  show ?case
    by (simp only: list.map snd_promise_all_Cons concat.simps put_all_Cons) simp
qed

lemma batch_per_path:
  "\<exists>ops. performed (snd (benchConcurrent sz CONCURRENT_OPS dir w)) = performed w @ ops \<and>
     (\<forall>op\<in>set ops. \<exists>k<CONCURRENT_OPS. op_path op = concurrent_path dir k) \<and>
     (\<forall>k<CONCURRENT_OPS. \<exists>n. 1 \<le> n \<and> n \<le> 3 \<and>
        filter (\<lambda>op. op_path op = concurrent_path dir k) ops
          = take n (chain_ops dir (replicate sz 0) k)) \<and>
     (workspace_ok dir w \<longrightarrow>
        (\<exists>t. fst (benchConcurrent sz CONCURRENT_OPS dir w) = Inr t) \<and>
        (\<forall>k<CONCURRENT_OPS.
           filter (\<lambda>op. op_path op = concurrent_path dir k) ops = chain_ops dir (replicate sz 0) k \<and>
           map_of (nodes (snd (benchConcurrent sz CONCURRENT_OPS dir w))) (concurrent_path dir k)
             = Some (file_node (replicate sz 0))))"
proof -
  let ?data = "replicate sz 0 :: nat list"
  let ?ks = "[0..<CONCURRENT_OPS]"
  let ?b = "benchConcurrent sz CONCURRENT_OPS dir w"
  from batch_trace [of ?ks dir ?data w] obtain n where
    n: "\<forall>k. 1 \<le> n k \<and> n k \<le> 3"
       "performed (snd (promise_all (map (chain dir ?data) ?ks) w)) =
          performed w @ concat (map (\<lambda>k. take (n k) (chain_ops dir ?data k)) ?ks)"
    by auto
  let ?ops = "concat (map (\<lambda>k. take (n k) (chain_ops dir ?data k)) ?ks)"
  have p: "performed (snd ?b) = performed w @ ?ops"
    using n(2) by (simp only: performed_benchConcurrent)
  have t: "\<forall>op\<in>set ?ops. \<exists>k<CONCURRENT_OPS. op_path op = concurrent_path dir k"
  proof
    fix op assume "op \<in> set ?ops"
    then obtain k where k: "k < CONCURRENT_OPS" "op \<in> set (take (n k) (chain_ops dir ?data k))"
      by auto
    then have "op_path op = concurrent_path dir k"
      using chain_ops_targets [of dir ?data k] by (auto dest: in_set_takeD)
    with k(1) show "\<exists>k<CONCURRENT_OPS. op_path op = concurrent_path dir k" by blast
  qed
  have f: "filter (\<lambda>op. op_path op = concurrent_path dir k) ?ops
      = take (n k) (chain_ops dir ?data k)" if "k < CONCURRENT_OPS" for k
    using filter_concat_pick [of ?ks "\<lambda>op. op_path op = concurrent_path dir k"
        "\<lambda>j. take (n j) (chain_ops dir ?data j)" k] that
    by (simp add: filter_chain_ops)
  have g: "\<forall>k<CONCURRENT_OPS. \<exists>m. 1 \<le> m \<and> m \<le> 3 \<and>
        filter (\<lambda>op. op_path op = concurrent_path dir k) ?ops = take m (chain_ops dir ?data k)"
    using f n(1) by blast
  have h: "(\<exists>t. fst ?b = Inr t) \<and>
        (\<forall>k<CONCURRENT_OPS.
           filter (\<lambda>op. op_path op = concurrent_path dir k) ?ops = chain_ops dir ?data k \<and>
           map_of (nodes (snd ?b)) (concurrent_path dir k) = Some (file_node ?data))"
    if ok: "workspace_ok dir w"
  proof -
    have 1: "\<exists>t. fst ?b = Inr t"
      using succeeds_in_benchConcurrent [of dir sz CONCURRENT_OPS] ok by (simp add: succeeds_in_def)
    from batch_ok_trace [OF ok, of ?data ?ks]
    have tr: "performed (snd (promise_all (map (chain dir ?data) ?ks) w)) =
           performed w @ concat (map (chain_ops dir ?data) ?ks)"
      and nd: "nodes (snd (promise_all (map (chain dir ?data) ?ks) w)) =
           put_all (map (concurrent_path dir) ?ks) (file_node ?data) (nodes w)"
      by simp_all
    from tr n(2) have eq: "?ops = concat (map (chain_ops dir ?data) ?ks)" by simp
    have 2: "filter (\<lambda>op. op_path op = concurrent_path dir k) ?ops = chain_ops dir ?data k"
      if "k < CONCURRENT_OPS" for k
    proof -
      have "filter (\<lambda>op. op_path op = concurrent_path dir k) (chain_ops dir ?data j)
          = (if j = k then chain_ops dir ?data j else [])" for j
        using filter_chain_ops [of dir k 3 ?data j] by (simp add: chain_ops_def)
      from filter_concat_pick [of ?ks "\<lambda>op. op_path op = concurrent_path dir k"
          "chain_ops dir ?data" k, OF _ this] that
      show ?thesis by (simp add: eq)
    qed
    have 3: "map_of (nodes (snd ?b)) (concurrent_path dir k) = Some (file_node ?data)"
      if "k < CONCURRENT_OPS" for k
      using that by (simp add: nodes_benchConcurrent nd map_of_put_all)
    from 1 2 3 show ?thesis by blast
  qed
  from p t g h show ?thesis by blast
qed

text \<open>
  C6. The path of chain \<open>i\<close> is \<^verbatim>\<open>concurrent_<i>.tmp\<close> in the directory; the paths of two
  different chains differ, so the ten paths of a batch are distinct. Chain \<open>i\<close> operates
  on its own path only: what it performs is its write, or its write and read, or its
  write, read and stat of \<^verbatim>\<open>concurrent_<i>.tmp\<close>, the write always. Every operation of a
  batch targets the path of one of its ten chains, and for every \<open>k\<close> below ten the
  operations of the batch on \<^verbatim>\<open>concurrent_<k>.tmp\<close> are those of chain \<open>k\<close> and of no
  other chain. In a healthy workspace the batch returns, the operations on
  \<^verbatim>\<open>concurrent_<k>.tmp\<close> are exactly the write, the read and the stat of chain \<open>k\<close>, and
  the file holds the data of the batch afterwards.
\<close>

theorem concurrent_paths_distinct:
  "basename (concurrent_path dir i) = ''concurrent_'' @ show_nat i @ ''.tmp'' \<and>
   (i \<noteq> j \<longrightarrow> concurrent_path dir i \<noteq> concurrent_path dir j) \<and>
   distinct (map (concurrent_path dir) [0..<CONCURRENT_OPS]) \<and>
   (\<forall>op\<in>set (chain_ops dir data i). op_path op = concurrent_path dir i) \<and>
   (\<exists>n. 1 \<le> n \<and> n \<le> 3 \<and>
        performed (snd (chain dir data i w)) = performed w @ take n (chain_ops dir data i)) \<and>
   (\<exists>ops. performed (snd (benchConcurrent sz CONCURRENT_OPS dir w)) = performed w @ ops \<and>
      (\<forall>op\<in>set ops. \<exists>k<CONCURRENT_OPS. op_path op = concurrent_path dir k) \<and>
      (\<forall>k<CONCURRENT_OPS. \<exists>n. 1 \<le> n \<and> n \<le> 3 \<and>
         filter (\<lambda>op. op_path op = concurrent_path dir k) ops
           = take n (chain_ops dir (replicate sz 0) k)) \<and>
      (workspace_ok dir w \<longrightarrow>
         (\<exists>t. fst (benchConcurrent sz CONCURRENT_OPS dir w) = Inr t) \<and>
         (\<forall>k<CONCURRENT_OPS.
            filter (\<lambda>op. op_path op = concurrent_path dir k) ops = chain_ops dir (replicate sz 0) k \<and>
            map_of (nodes (snd (benchConcurrent sz CONCURRENT_OPS dir w))) (concurrent_path dir k)
              = Some (file_node (replicate sz 0)))))"
proof -
  have d: "distinct (map (concurrent_path dir) [0..<CONCURRENT_OPS])"
    by (simp add: distinct_map inj_on_def) (blast dest: concurrent_path_inj)
  have i: "i \<noteq> j \<longrightarrow> concurrent_path dir i \<noteq> concurrent_path dir j"
    using concurrent_path_inj [of dir i j] by blast
  from d i chain_ops_targets [of dir data i] chain_trace [of dir data i w]
    batch_per_path [of sz dir w] basename_concurrent_path [of dir i]
  show ?thesis by (intro conjI)
qed

text \<open>
  C6 on a batch of two-byte files in the empty workspace \<^verbatim>\<open>./d\<close>: the paths of chains 3
  and 7 are \<^verbatim>\<open>./d/concurrent_3.tmp\<close> and \<^verbatim>\<open>./d/concurrent_7.tmp\<close>, they differ, the
  operations of the batch on the first are the write, read and stat of chain 3, and the
  file holds the two bytes afterwards.
\<close>

theorem concurrent_paths_distinct_witness:
  "workspace_ok ''./d'' (empty_workspace ''./d'') \<and> (3::nat) \<noteq> 7 \<and> (3::nat) < CONCURRENT_OPS \<and>
   concurrent_path ''./d'' 3 = ''./d/concurrent_3.tmp'' \<and>
   concurrent_path ''./d'' 7 = ''./d/concurrent_7.tmp'' \<and>
   concurrent_path ''./d'' 3 \<noteq> concurrent_path ''./d'' 7 \<and>
   filter (\<lambda>op. op_path op = ''./d/concurrent_3.tmp'')
     (performed (snd (benchConcurrent 2 CONCURRENT_OPS ''./d'' (empty_workspace ''./d''))))
     = [WriteFile ''./d/concurrent_3.tmp'' [0, 0], ReadFile ''./d/concurrent_3.tmp'',
        Stat ''./d/concurrent_3.tmp''] \<and>
   map_of (nodes (snd (benchConcurrent 2 CONCURRENT_OPS ''./d'' (empty_workspace ''./d''))))
     ''./d/concurrent_3.tmp'' = Some (file_node [0, 0])"
proof -
  have p: "concurrent_path ''./d'' 3 = ''./d/concurrent_3.tmp''"
    "concurrent_path ''./d'' 7 = ''./d/concurrent_7.tmp''"
    by (simp_all add: concurrent_path_def show_nat.simps digit_char_def)
  have e: "performed (empty_workspace ''./d'') = []"
    by (simp add: empty_workspace_def world_of_def)
  have c: "(3::nat) < CONCURRENT_OPS" by (simp add: CONCURRENT_OPS_def)
  have r: "replicate 2 (0::nat) = [0, 0]" by (simp add: numeral_2_eq_2)
  from concurrent_paths_distinct [of "''./d''" 3 7 "[]" "empty_workspace ''./d''" 2]
    empty_workspace_ok c
  show ?thesis
    by (auto simp: p e r chain_ops_def)
qed

subsection \<open>The composite scenario\<close>

lemma scenario_doc_names: "map doc_name scenario_files = scenario_names"
  by (simp add: scenario_files_def scenario_names_def)

lemma scenario_doc_paths:
  "map (\<lambda>file. dir @ ''/'' @ doc_name file) scenario_files = scenario_paths dir"
proof -
  have "map (\<lambda>file. dir @ ''/'' @ doc_name file) scenario_files =
        map (\<lambda>n. dir @ ''/'' @ n) (map doc_name scenario_files)"
    by (simp add: comp_def)
  then show ?thesis
    by (simp only: scenario_doc_names scenario_paths_def)
qed

lemma good_scenario_paths: "\<forall>p\<in>set (scenario_paths dir). good_path dir p"
  by (simp add: scenario_paths_def scenario_names_def good_child)

lemma distinct_scenario_paths: "distinct (scenario_paths dir)"
  by (simp add: scenario_paths_def scenario_names_def)

lemma write_text_all:
  assumes "workspace_ok dir w" "\<forall>f\<in>set fs. good_path dir (path f)" "distinct (map path fs)"
  shows "\<exists>W. promise_all (map (\<lambda>f. Deno_writeTextFile (path f) (content f)) fs) w
            = (Inr (map (\<lambda>f. ()) fs), W) \<and>
    workspace_ok dir W \<and>
    performed W = performed w @ map (\<lambda>f. WriteFile (path f) (map of_char (content f))) fs \<and>
    (\<forall>f\<in>set fs. map_of (nodes W) (path f) = Some (file_node (map of_char (content f)))) \<and>
    (\<forall>q. q \<notin> path ` set fs \<longrightarrow> map_of (nodes W) q = map_of (nodes w) q)"
  using assms
proof (induction fs arbitrary: w)
  case Nil
  then show ?case by (simp add: return_io_def)
next
  case (Cons f fs)
  let ?d = "map of_char (content f)"
  let ?w1 = "(perform (WriteFile (path f) ?d) w)\<lparr>nodes := put (path f) (file_node ?d) (nodes w)\<rparr>"
  have g: "good_path dir (path f)" using Cons.prems by simp
  have 1: "Deno_writeTextFile (path f) (content f) w = (Inr (), ?w1)"
    using Deno_writeFile_ok [OF Cons.prems(1) g, of ?d] by (simp add: Deno_writeTextFile_def)
  have "workspace_ok dir (snd (Deno_writeFile (path f) ?d w))"
    using succeeds_in_writeFile [OF g, of ?d] Cons.prems(1) by (simp add: succeeds_in_def)
  then have ok1: "workspace_ok dir ?w1"
    using 1 by (simp add: Deno_writeTextFile_def)
  have "\<forall>f\<in>set fs. good_path dir (path f)" "distinct (map path fs)"
    using Cons.prems by simp_all
  from Cons.IH [OF ok1 this] obtain W where W:
    "promise_all (map (\<lambda>f. Deno_writeTextFile (path f) (content f)) fs) ?w1 = (Inr (map (\<lambda>f. ()) fs), W)"
    "workspace_ok dir W"
    "performed W = performed ?w1 @ map (\<lambda>f. WriteFile (path f) (map of_char (content f))) fs"
    "\<forall>f\<in>set fs. map_of (nodes W) (path f) = Some (file_node (map of_char (content f)))"
    "\<forall>q. q \<notin> path ` set fs \<longrightarrow> map_of (nodes W) q = map_of (nodes ?w1) q"
    by blast
  have "path f \<notin> path ` set fs" using Cons.prems(3) by auto
  with W(5) have f: "map_of (nodes W) (path f) = Some (file_node ?d)"
    by (simp add: map_of_put)
  have others: "\<forall>q. q \<notin> path ` set (f # fs) \<longrightarrow> map_of (nodes W) q = map_of (nodes w) q"
    using W(5) by (simp add: map_of_put)
  have "promise_all (map (\<lambda>f. Deno_writeTextFile (path f) (content f)) (f # fs)) w
      = (Inr (map (\<lambda>f. ()) (f # fs)), W)"
    using 1 W(1) by simp
  moreover have "performed W = performed w @ map (\<lambda>f. WriteFile (path f) (map of_char (content f))) (f # fs)"
    using W(3) by (simp add: perform_fields)
  ultimately show ?case
    using W(2) W(4) f others by (intro exI [of _ W]) simp
qed

text \<open>The four documents are ASCII, so they are read back as written.\<close>

lemma ascii_join:
  assumes "list_all A sep" "\<forall>x\<in>set xs. list_all A x"
  shows "list_all A (join sep xs)"
  using assms by (induction sep xs rule: join.induct) simp_all

lemma ascii_object_array:
  assumes "list_all (\<lambda>c. of_char c < (128::nat)) k"
    "list_all (\<lambda>c. of_char c < (128::nat)) (JSON_stringify x)"
  shows "list_all (\<lambda>c. of_char c < (128::nat))
           (JSON_stringify (JObject [(k, JArray (replicate n x))]))"
proof -
  have "list_all (\<lambda>c. of_char c < (128::nat)) (join '','' (replicate n (JSON_stringify x)))"
    using assms(2) by (intro ascii_join) simp_all
  with assms(1) show ?thesis by (simp add: quote_def)
qed

lemma ascii_replicate: "A c \<Longrightarrow> list_all A (replicate n c)"
  by (simp add: list_all_iff)

lemma scenario_contents_ascii:
  "\<forall>f\<in>set scenario_files. list_all (\<lambda>c. of_char c < (128::nat)) (content f)"
proof -
  have 3: "list_all (\<lambda>c. of_char c < (128::nat))
      (JSON_stringify (JObject [(''items'',
         JArray (replicate 100 (JObject [(''id'', JNumber 1), (''value'', JString ''test'')])))]))"
    by (rule ascii_object_array) (simp_all add: quote_def show_nat.simps digit_char_def)
  have "list_all (\<lambda>c. of_char c < (128::nat)) (quote (replicate 100 CHR ''x''))"
    unfolding quote_def list_all_append
    by (intro conjI ascii_replicate) simp_all
  then have 4: "list_all (\<lambda>c. of_char c < (128::nat))
      (JSON_stringify (JObject [(''cache'', JArray (replicate 1000 (JString (replicate 100 CHR ''x''))))]))"
    by (intro ascii_object_array) simp_all
  have 1: "list_all (\<lambda>c. of_char c < (128::nat))
      (JSON_stringify (JObject [(''app'', JString ''deno''), (''version'', JString ''1.0'')]))"
    by (simp add: quote_def)
  have 2: "list_all (\<lambda>c. of_char c < (128::nat))
      (JSON_stringify (JObject [(''theme'', JString ''dark''), (''lang'', JString ''en'')]))"
    by (simp add: quote_def)
  show ?thesis
    unfolding scenario_files_def using 1 2 3 4
    by (simp only: list.set ball_simps document.simps simp_thms)
qed

lemma Deno_readTextFile_ok:
  assumes "map_of (nodes w) p = Some (file_node (map of_char s))"
    "list_all (\<lambda>c. of_char c < (128::nat)) s"
  shows "Deno_readTextFile p w = (Inr (utf16 s), perform (ReadFile p) w)"
proof -
  have "list_all (\<lambda>b. b < (128::nat)) (map of_char s)"
    using assms(2) by (simp add: list_all_iff)
  from decode_ascii [OF this] Deno_readFile_ok [OF assms(1)]
  show ?thesis
    by (simp add: Deno_readTextFile_def bind_io_def return_io_def file_node_def utf16_def)
qed

lemma read_text_all:
  assumes "\<forall>f\<in>set fs. map_of (nodes w) (path f) = Some (file_node (map of_char (content f)))"
    "\<forall>f\<in>set fs. list_all (\<lambda>c. of_char c < (128::nat)) (content f)"
  shows "promise_all (map (\<lambda>f. Deno_readTextFile (path f)) fs) w
    = (Inr (map (\<lambda>f. utf16 (content f)) fs), perform_all (map (\<lambda>f. ReadFile (path f)) fs) w)"
  using assms
proof (induction fs arbitrary: w)
  case Nil
  show ?case by (simp add: return_io_def perform_all_Nil)
next
  case (Cons f fs)
  have 1: "Deno_readTextFile (path f) w = (Inr (utf16 (content f)), perform (ReadFile (path f)) w)"
    using Cons.prems by (intro Deno_readTextFile_ok) simp_all
  have "promise_all (map (\<lambda>f. Deno_readTextFile (path f)) fs) (perform (ReadFile (path f)) w)
    = (Inr (map (\<lambda>f. utf16 (content f)) fs),
       perform_all (map (\<lambda>f. ReadFile (path f)) fs) (perform (ReadFile (path f)) w))"
    using Cons.prems by (intro Cons.IH) (simp_all add: perform_fields)
  with 1 show ?case by (simp add: perform_all_Cons)
qed

lemma parse_loop:
  "for_each cs (\<lambda>c. case JSON_parse c of Inl e \<Rightarrow> throw_io e | Inr v \<Rightarrow> return_io ()) w =
     (case first_error JSON_parse cs of Some e \<Rightarrow> (Inl e, w) | None \<Rightarrow> (Inr (), w))"
proof (induction cs)
  case Nil
  show ?case by (simp add: return_io_def)
next
  case (Cons c cs)
  then show ?case
    by (cases "JSON_parse c") (simp_all add: bind_io_def throw_io_def return_io_def)
qed

lemma first_error_exists:
  "c \<in> set cs \<Longrightarrow> JSON_parse c = Inl e0 \<Longrightarrow> \<exists>e. first_error JSON_parse cs = Some e"
  by (induction cs) (auto split: sum.splits)

lemma first_error_is_parse_error:
  "first_error JSON_parse cs = Some e \<Longrightarrow> \<exists>c\<in>set cs. JSON_parse c = Inl e"
  by (induction cs) (auto split: sum.splits)

lemma benchRealWorldScenario_fails:
  assumes "workspace_ok dir w"
    "first_error JSON_parse (map (\<lambda>f. utf16 (content f)) scenario_files) = Some e"
  shows "\<exists>W. benchRealWorldScenario JSON_parse dir w = (Inl e, W) \<and>
    performed W = performed w
      @ map (\<lambda>f. WriteFile (dir @ ''/'' @ doc_name f) (map of_char (content f))) scenario_files
      @ map ReadFile (scenario_paths dir) \<and>
    (\<forall>p\<in>set (scenario_paths dir). map_of (nodes W) p \<noteq> None)"
proof -
  let ?path = "\<lambda>f. dir @ ''/'' @ doc_name f"
  have paths: "map ?path scenario_files = scenario_paths dir" by (rule scenario_doc_paths)
  have g: "\<forall>f\<in>set scenario_files. good_path dir (?path f)"
    using good_scenario_paths [of dir] paths [symmetric] by (metis (no_types, lifting) imageI set_map)
  have d: "distinct (map ?path scenario_files)"
    unfolding paths by (rule distinct_scenario_paths)
  from write_text_all [OF assms(1) g d] obtain W1 where W1:
    "promise_all (map (\<lambda>f. Deno_writeTextFile (?path f) (content f)) scenario_files) w
       = (Inr (map (\<lambda>f. ()) scenario_files), W1)"
    "performed W1 = performed w @ map (\<lambda>f. WriteFile (?path f) (map of_char (content f))) scenario_files"
    "\<forall>f\<in>set scenario_files. map_of (nodes W1) (?path f) = Some (file_node (map of_char (content f)))"
    by blast
  let ?W2 = "perform_all (map (\<lambda>f. ReadFile (?path f)) scenario_files) W1"
  from read_text_all [of scenario_files W1 ?path, OF W1(3) scenario_contents_ascii]
  have reads: "promise_all (map (\<lambda>f. Deno_readTextFile (?path f)) scenario_files) W1
    = (Inr (map (\<lambda>f. utf16 (content f)) scenario_files), ?W2)" .
  have parse: "for_each (map (\<lambda>f. utf16 (content f)) scenario_files)
      (\<lambda>c. case JSON_parse c of Inl e \<Rightarrow> throw_io e | Inr v \<Rightarrow> return_io ()) ?W2 = (Inl e, ?W2)"
    by (simp add: parse_loop assms(2))
  have run: "benchRealWorldScenario JSON_parse dir w = (Inl e, ?W2)"
    unfolding benchRealWorldScenario_def
    using W1(1) reads parse
    by (simp add: bind_io_def then_io_def performance_now_def)
  have "map (\<lambda>f. ReadFile (?path f)) scenario_files = map ReadFile (map ?path scenario_files)"
    by (simp add: comp_def)
  then have ops: "map (\<lambda>f. ReadFile (?path f)) scenario_files = map ReadFile (scenario_paths dir)"
    by (simp only: paths)
  have "performed ?W2 = performed w
      @ map (\<lambda>f. WriteFile (?path f) (map of_char (content f))) scenario_files
      @ map ReadFile (scenario_paths dir)"
    by (simp only: perform_all_fields ops W1(2) append_assoc)
  moreover have "\<forall>p\<in>set (scenario_paths dir). map_of (nodes ?W2) p \<noteq> None"
    unfolding paths [symmetric] using W1(3) by (simp add: perform_all_fields)
  ultimately show ?thesis using run by blast
qed

lemma scenario_phase_fails:
  assumes "workspace_ok testDir w"
    "first_error JSON_parse (map (\<lambda>f. utf16 (content f)) scenario_files) = Some e"
  shows "\<exists>ops W. scenario_phase JSON_parse w = (Inl e, W) \<and>
    performed W = ops @ map ReadFile (scenario_paths testDir) \<and>
    (\<forall>p\<in>set (scenario_paths testDir). map_of (nodes W) p \<noteq> None)"
proof -
  from succeeds_inD [OF succeeds_in_log_all assms(1), of "map Fixed [106, 107, 108]"]
  obtain x v where v: "log_all (map Fixed [106, 107, 108]) w = (Inr x, v)" "workspace_ok testDir v"
    by blast
  from benchRealWorldScenario_fails [OF v(2) assms(2)] obtain W where W:
    "benchRealWorldScenario JSON_parse testDir v = (Inl e, W)"
    "performed W = performed v
      @ map (\<lambda>f. WriteFile (testDir @ ''/'' @ doc_name f) (map of_char (content f))) scenario_files
      @ map ReadFile (scenario_paths testDir)"
    "\<forall>p\<in>set (scenario_paths testDir). map_of (nodes W) p \<noteq> None"
    by blast
  have "scenario_phase JSON_parse w = (Inl e, W)"
    using v(1) W(1) by (simp add: scenario_phase_def then_io_def bind_io_def)
  moreover have "performed W = (performed v
      @ map (\<lambda>f. WriteFile (testDir @ ''/'' @ doc_name f) (map of_char (content f))) scenario_files)
      @ map ReadFile (scenario_paths testDir)"
    by (simp only: W(2) append_assoc)
  ultimately show ?thesis
    using W(3) by blast
qed

text \<open>
  C7. In a healthy workspace, when \<^verbatim>\<open>JSON.parse\<close> throws on the content of one of the
  four documents, the composite scenario ends in an exception thrown by the parse step
  (that of the first document it fails on), after the four writes and the four reads and
  before any stat. The exception is caught nowhere: the scenario phase and the whole run
  end in it, the last operations of the run are the four reads, so the final cleanup is
  never started, and the four scenario files are left behind.
\<close>

theorem parse_failure_aborts_run:
  assumes "workspace_ok testDir w" "c \<in> set (map content scenario_files)"
    "JSON_parse (utf16 c) = Inl e0"
  shows "\<exists>e ops. first_error JSON_parse (map (\<lambda>f. utf16 (content f)) scenario_files) = Some e \<and>
    (\<exists>c'\<in>set (map content scenario_files). JSON_parse (utf16 c') = Inl e) \<and>
    fst (benchRealWorldScenario JSON_parse testDir w) = Inl e \<and>
    performed (snd (benchRealWorldScenario JSON_parse testDir w)) =
      performed w
      @ map (\<lambda>f. WriteFile (testDir @ ''/'' @ doc_name f) (map of_char (content f))) scenario_files
      @ map ReadFile (scenario_paths testDir) \<and>
    fst (scenario_phase JSON_parse w) = Inl e \<and>
    fst (main os JSON_parse w) = Inl e \<and>
    performed (snd (main os JSON_parse w)) = ops @ map ReadFile (scenario_paths testDir) \<and>
    (\<forall>p\<in>set (scenario_paths testDir). map_of (nodes (snd (main os JSON_parse w))) p \<noteq> None)"
proof -
  have "utf16 c \<in> set (map (\<lambda>f. utf16 (content f)) scenario_files)"
    using assms(2) by auto
  from first_error_exists [of "utf16 c" "map (\<lambda>f. utf16 (content f)) scenario_files" JSON_parse e0]
    this assms(3) obtain e where
    e: "first_error JSON_parse (map (\<lambda>f. utf16 (content f)) scenario_files) = Some e" by blast
  from first_error_is_parse_error [OF e]
  have p: "\<exists>c'\<in>set (map content scenario_files). JSON_parse (utf16 c') = Inl e" by auto
  from benchRealWorldScenario_fails [OF assms(1) e] obtain W where W:
    "benchRealWorldScenario JSON_parse testDir w = (Inl e, W)"
    "performed W = performed w
      @ map (\<lambda>f. WriteFile (testDir @ ''/'' @ doc_name f) (map of_char (content f))) scenario_files
      @ map ReadFile (scenario_paths testDir)"
    by blast
  from scenario_phase_fails [OF assms(1) e] have s: "fst (scenario_phase JSON_parse w) = Inl e"
    by auto
  from main_reaches_scenario [OF assms(1), of os JSON_parse] obtain v where
    v: "workspace_ok testDir v" "main os JSON_parse w = then_io (scenario_phase JSON_parse) teardown v"
    by blast
  from scenario_phase_fails [OF v(1) e] obtain ops V where V:
    "scenario_phase JSON_parse v = (Inl e, V)"
    "performed V = ops @ map ReadFile (scenario_paths testDir)"
    "\<forall>p\<in>set (scenario_paths testDir). map_of (nodes V) p \<noteq> None"
    by blast
  have m: "main os JSON_parse w = (Inl e, V)"
    unfolding v(2) using V(1) by (rule then_io_Inl)
  show ?thesis
    using e p W s V(2) V(3) unfolding m by (intro exI [of _ e] exI [of _ ops]) simp
qed

lemma testDir_workspace_ok: "workspace_ok testDir (empty_workspace testDir)"
  by (simp add: workspace_ok_def empty_workspace_def node_eval is_child_def basename_def
      testDir_def)

text \<open>
  C7 on the empty workspace with a parser that rejects every text: the scenario and
  the whole run end in the parser's SyntaxError.
\<close>

theorem parse_failure_aborts_run_witness:
  "workspace_ok testDir (empty_workspace testDir) \<and>
   content (hd scenario_files) \<in> set (map content scenario_files) \<and>
   fst (benchRealWorldScenario (\<lambda>s. Inl SyntaxError) testDir (empty_workspace testDir)) = Inl SyntaxError \<and>
   fst (main ''linux'' (\<lambda>s. Inl SyntaxError) (empty_workspace testDir)) = Inl SyntaxError"
proof -
  have ne: "scenario_files \<noteq> []"
    by (simp only: scenario_files_def list.distinct not_False_eq_True)
  then have c: "content (hd scenario_files) \<in> set (map content scenario_files)"
    by simp
  have "cs \<noteq> [] \<Longrightarrow> first_error (\<lambda>s. Inl SyntaxError) cs = Some SyntaxError" for cs
    by (cases cs) simp_all
  from this [of "map (\<lambda>f. utf16 (content f)) scenario_files"] ne
  have f: "first_error (\<lambda>s. Inl SyntaxError) (map (\<lambda>f. utf16 (content f)) scenario_files)
      = Some SyntaxError"
    by simp
  from parse_failure_aborts_run [OF testDir_workspace_ok c, of "\<lambda>s. Inl SyntaxError" SyntaxError "''linux''"]
  obtain e where
    "first_error (\<lambda>s. Inl SyntaxError) (map (\<lambda>f. utf16 (content f)) scenario_files) = Some e"
    "fst (benchRealWorldScenario (\<lambda>s. Inl SyntaxError) testDir (empty_workspace testDir)) = Inl e"
    "fst (main ''linux'' (\<lambda>s. Inl SyntaxError) (empty_workspace testDir)) = Inl e"
    by blast
  with f testDir_workspace_ok c show ?thesis
    by simp
qed

end
